theory Spec2Isabelle
  imports Main
begin

section \<open>Raw storage and the dynamic array of \<^verbatim>\<open>vector.h\<close>\<close>

text \<open>
  The development embeds the two class templates of \<^verbatim>\<open>src/vector/00/vector.h\<close>,
  \<^verbatim>\<open>RawMemory<T>\<close> and \<^verbatim>\<open>Vector<T>\<close>, and proves the properties of the
  specification about them.

  \<^item> A storage block is the list of its slots. A slot is \<open>None\<close> while it is raw memory
    and \<open>Some x\<close> while an object of value \<open>x\<close> lives in it. The null pointer is the
    block without slots.
  \<^item> The members \<^verbatim>\<open>buffer_\<close>, \<^verbatim>\<open>capacity_\<close>, \<^verbatim>\<open>data_\<close> and \<^verbatim>\<open>size_\<close> are the
    record fields \<open>buffer_m\<close>, \<open>capacity_m\<close>, \<open>data_m\<close> and \<open>size_m\<close> (a name may not
    end in an underscore here).
  \<^item> \<^verbatim>\<open>size_t\<close> is a natural number below \<open>2 ^ 64\<close>; where the code computes with
    it without a guard (\<^verbatim>\<open>n * sizeof(T)\<close> in \<^verbatim>\<open>Allocate\<close>, \<^verbatim>\<open>Capacity() * 2\<close>,
    \<^verbatim>\<open>++size_\<close>, and \<^verbatim>\<open>size_ - 1\<close> in \<^verbatim>\<open>EmplaceBack\<close>) the wrap-around is
    written out. The loop counter of the copy assignment is an \<^verbatim>\<open>int\<close>.
  \<^item> A position (\<^verbatim>\<open>iterator\<close>) is the index \<^verbatim>\<open>pos - begin()\<close> of its slot.
  \<^item> The element type \<^verbatim>\<open>T\<close> and the allocator are parameters, collected in the record
    \<open>elem_ops\<close>: which of \<^verbatim>\<open>T\<close>'s operations throw, what a moved-from object holds,
    the two type traits the code dispatches on, \<^verbatim>\<open>sizeof(T)\<close>, and which requests
    \<^verbatim>\<open>operator new\<close> grants.
  \<^item> An argument is a value: a call whose argument refers to an element of the same
    vector is the call with the value of that element.
  \<^item> An exception is a value: an operation ends in \<open>Done\<close>, in \<open>Raised\<close> with the
    state the exception leaves behind, or in \<open>Undefined\<close> where the C++ standard gives
    the execution no meaning (a violated precondition of a library algorithm, an access
    outside a block, reading a slot that holds no object).
\<close>

subsection \<open>The element type and the allocator\<close>

type_synonym 'a slot = "'a option"

record 'a elem_ops =
  nothrow_move_constructible :: bool
  copy_constructible :: bool
  copy_ctor_throws :: "'a \<Rightarrow> bool"
  move_ctor_throws :: "'a \<Rightarrow> bool"
  copy_assign_throws :: "'a \<Rightarrow> bool"
  move_assign_throws :: "'a \<Rightarrow> bool"
  moved_from :: "'a \<Rightarrow> 'a"
  value_init :: "'a option"
  sizeof_T :: nat
  alloc_ok :: "nat \<Rightarrow> bool"

text \<open>
  \<open>copy_ctor_throws T x\<close>: copy construction from an object of value \<open>x\<close> throws
  (likewise for the other three). \<open>moved_from T x\<close> is the value a moved-from object is
  left with. \<open>value_init T\<close> is the value of \<^verbatim>\<open>T()\<close>, \<open>None\<close> when that constructor
  throws. \<open>sizeof_T T\<close> is \<^verbatim>\<open>sizeof(T)\<close>. \<open>alloc_ok T n\<close>: \<^verbatim>\<open>operator new\<close> grants
  a request for \<open>n\<close> bytes. Destructors do not throw.
\<close>

datatype 'a ctor_arg = CopyOf 'a | MoveOf 'a

text \<open>The argument of a forwarding constructor call: an lvalue to copy or an rvalue to move.\<close>

definition use_move :: "'a elem_ops \<Rightarrow> bool" where
  "use_move T = (nothrow_move_constructible T \<or> \<not> copy_constructible T)"

definition ctor_throws :: "'a elem_ops \<Rightarrow> bool \<Rightarrow> 'a \<Rightarrow> bool" where
  "ctor_throws T mv x = (if mv then move_ctor_throws T x else copy_ctor_throws T x)"

definition assign_throws :: "'a elem_ops \<Rightarrow> bool \<Rightarrow> 'a \<Rightarrow> bool" where
  "assign_throws T mv x = (if mv then move_assign_throws T x else copy_assign_throws T x)"

definition residue :: "'a elem_ops \<Rightarrow> bool \<Rightarrow> 'a \<Rightarrow> 'a" where
  "residue T mv x = (if mv then moved_from T x else x)"

fun construct :: "'a elem_ops \<Rightarrow> 'a ctor_arg \<Rightarrow> 'a option" where
  "construct T (CopyOf x) = (if copy_ctor_throws T x then None else Some x)"
| "construct T (MoveOf x) = (if move_ctor_throws T x then None else Some x)"

definition nothrow :: "'a elem_ops \<Rightarrow> bool" where
  "nothrow T = (\<forall>x. \<not> copy_ctor_throws T x \<and> \<not> move_ctor_throws T x
                  \<and> \<not> copy_assign_throws T x \<and> \<not> move_assign_throws T x)"

definition SIZE_WIDTH :: nat where
  "SIZE_WIDTH = 64"

definition PTRDIFF_MAX :: nat where
  "PTRDIFF_MAX = 2 ^ 63 - 1"

definition wrap :: "nat \<Rightarrow> nat" where
  "wrap n = n mod 2 ^ SIZE_WIDTH"

subsection \<open>Outcomes\<close>

datatype error = BadAlloc | ElementThrow

datatype 's step = Ok 's | Throw 's | UB

datatype ('s, 'r, 'a) outcome = Done 's 'r | Raised error 's "'a list" | Undefined

text \<open>
  \<open>step\<close> is the result of a library algorithm on storage, \<open>outcome\<close> the result of a
  member function. \<open>Raised e s l\<close>: the exception \<open>e\<close> reaches the caller, the object is
  in state \<open>s\<close>, and \<open>l\<close> lists the objects that were alive in a block released while
  the exception unwound: their destructors never ran.
\<close>

subsection \<open>Library algorithms on storage\<close>

definition construct_at :: "'a slot list \<Rightarrow> nat \<Rightarrow> 'a \<Rightarrow> 'a slot list option" where
  "construct_at b i x = (if i < length b then Some (b[i := Some x]) else None)"

definition destroy_at :: "'a slot list \<Rightarrow> nat \<Rightarrow> 'a slot list option" where
  "destroy_at b i = (if i < length b \<and> b ! i \<noteq> None then Some (b[i := None]) else None)"

fun destroy_n :: "'a slot list \<Rightarrow> nat \<Rightarrow> nat \<Rightarrow> 'a slot list option" where
  "destroy_n b first 0 = Some b"
| "destroy_n b first (Suc n) =
     (case destroy_at b first of None \<Rightarrow> None | Some b' \<Rightarrow> destroy_n b' (Suc first) n)"

text \<open>
  \<^verbatim>\<open>std::uninitialized_copy_n\<close>, \<^verbatim>\<open>std::uninitialized_move_n\<close> and their range forms:
  construct \<open>n\<close> objects in the raw slots of \<open>dst\<close> from \<open>d_first\<close> on, from the objects of
  \<open>src\<close> from \<open>first\<close> on; \<open>k\<close> counts the objects constructed so far. When a constructor
  throws, the objects constructed so far are destroyed and the exception is passed on.
\<close>

fun uninitialized_transfer ::
  "'a elem_ops \<Rightarrow> bool \<Rightarrow> nat \<Rightarrow> nat \<Rightarrow> nat \<Rightarrow> nat \<Rightarrow> 'a slot list \<Rightarrow> 'a slot list
     \<Rightarrow> ('a slot list \<times> 'a slot list) step" where
  "uninitialized_transfer T mv first d_first k 0 src dst = Ok (src, dst)"
| "uninitialized_transfer T mv first d_first k (Suc n) src dst =
     (if first + k < length src \<and> d_first + k < length dst then
        (case src ! (first + k) of
           None \<Rightarrow> UB
         | Some x \<Rightarrow>
             if ctor_throws T mv x then
               (case destroy_n dst d_first k of
                  None \<Rightarrow> UB
                | Some dst' \<Rightarrow> Throw (src, dst'))
             else uninitialized_transfer T mv first d_first (Suc k) n
                    (src[first + k := Some (residue T mv x)]) (dst[d_first + k := Some x]))
      else UB)"

definition uninitialized_copy_n ::
  "'a elem_ops \<Rightarrow> 'a slot list \<Rightarrow> nat \<Rightarrow> nat \<Rightarrow> 'a slot list \<Rightarrow> nat
     \<Rightarrow> ('a slot list \<times> 'a slot list) step" where
  "uninitialized_copy_n T src first n dst d_first =
     uninitialized_transfer T False first d_first 0 n src dst"

definition uninitialized_move_n ::
  "'a elem_ops \<Rightarrow> 'a slot list \<Rightarrow> nat \<Rightarrow> nat \<Rightarrow> 'a slot list \<Rightarrow> nat
     \<Rightarrow> ('a slot list \<times> 'a slot list) step" where
  "uninitialized_move_n T src first n dst d_first =
     uninitialized_transfer T True first d_first 0 n src dst"

definition uninitialized_copy ::
  "'a elem_ops \<Rightarrow> 'a slot list \<Rightarrow> nat \<Rightarrow> nat \<Rightarrow> 'a slot list \<Rightarrow> nat
     \<Rightarrow> ('a slot list \<times> 'a slot list) step" where
  "uninitialized_copy T src first lst dst d_first =
     (if first \<le> lst then uninitialized_copy_n T src first (lst - first) dst d_first else UB)"

definition uninitialized_move ::
  "'a elem_ops \<Rightarrow> 'a slot list \<Rightarrow> nat \<Rightarrow> nat \<Rightarrow> 'a slot list \<Rightarrow> nat
     \<Rightarrow> ('a slot list \<times> 'a slot list) step" where
  "uninitialized_move T src first lst dst d_first =
     (if first \<le> lst then uninitialized_move_n T src first (lst - first) dst d_first else UB)"

text \<open>\<^verbatim>\<open>std::uninitialized_value_construct_n\<close>, with the same roll-back.\<close>

fun value_construct_from ::
  "'a elem_ops \<Rightarrow> nat \<Rightarrow> nat \<Rightarrow> nat \<Rightarrow> 'a slot list \<Rightarrow> 'a slot list step" where
  "value_construct_from T first k 0 b = Ok b"
| "value_construct_from T first k (Suc n) b =
     (if first + k < length b then
        (case value_init T of
           None \<Rightarrow> (case destroy_n b first k of None \<Rightarrow> UB | Some b' \<Rightarrow> Throw b')
         | Some x \<Rightarrow> value_construct_from T first (Suc k) n (b[first + k := Some x]))
      else UB)"

definition uninitialized_value_construct_n ::
  "'a elem_ops \<Rightarrow> 'a slot list \<Rightarrow> nat \<Rightarrow> nat \<Rightarrow> 'a slot list step" where
  "uninitialized_value_construct_n T b first n = value_construct_from T first 0 n b"

text \<open>
  One assignment \<^verbatim>\<open>b[d] = b[s]\<close> (copy) or \<^verbatim>\<open>b[d] = std::move(b[s])\<close> inside a block:
  both slots hold objects; a moved-from source keeps its residue.
\<close>

definition assign_slot :: "'a elem_ops \<Rightarrow> bool \<Rightarrow> nat \<Rightarrow> nat \<Rightarrow> 'a slot list \<Rightarrow> 'a slot list step" where
  "assign_slot T mv s d b =
     (if s < length b \<and> d < length b then
        (case b ! s of
           None \<Rightarrow> UB
         | Some x \<Rightarrow>
            (case b ! d of
               None \<Rightarrow> UB
             | Some y \<Rightarrow>
                 if assign_throws T mv x then Throw b
                 else Ok (b[s := Some (residue T mv x), d := Some x])))
      else UB)"

text \<open>
  \<^verbatim>\<open>std::copy\<close> and \<^verbatim>\<open>std::move\<close> (the algorithm) assign front to back, \<open>n\<close> elements
  from \<open>first\<close> to \<open>d_first\<close>.
\<close>

fun assign_forward :: "'a elem_ops \<Rightarrow> bool \<Rightarrow> nat \<Rightarrow> nat \<Rightarrow> nat \<Rightarrow> 'a slot list \<Rightarrow> 'a slot list step" where
  "assign_forward T mv first d_first 0 b = Ok b"
| "assign_forward T mv first d_first (Suc n) b =
     (case assign_slot T mv first d_first b of
        Ok b' \<Rightarrow> assign_forward T mv (Suc first) (Suc d_first) n b'
      | Throw b' \<Rightarrow> Throw b'
      | UB \<Rightarrow> UB)"

text \<open>
  \<^verbatim>\<open>std::copy_backward\<close> and \<^verbatim>\<open>std::move_backward\<close> assign back to front, \<open>n\<close> elements
  ending before \<open>lst\<close> to the slots ending before \<open>d_lst\<close>.
\<close>

fun assign_backward :: "'a elem_ops \<Rightarrow> bool \<Rightarrow> nat \<Rightarrow> nat \<Rightarrow> nat \<Rightarrow> 'a slot list \<Rightarrow> 'a slot list step" where
  "assign_backward T mv lst d_lst 0 b = Ok b"
| "assign_backward T mv lst d_lst (Suc n) b =
     (if 0 < lst \<and> 0 < d_lst then
        (case assign_slot T mv (lst - 1) (d_lst - 1) b of
           Ok b' \<Rightarrow> assign_backward T mv (lst - 1) (d_lst - 1) n b'
         | Throw b' \<Rightarrow> Throw b'
         | UB \<Rightarrow> UB)
      else UB)"

text \<open>
  The four algorithms take a range from \<open>first\<close> up to, not including, \<open>lst\<close>. A range whose \<open>first\<close>
  lies behind its \<open>lst\<close> is not a range: the call has undefined behaviour.
\<close>

definition std_copy :: "'a elem_ops \<Rightarrow> 'a slot list \<Rightarrow> nat \<Rightarrow> nat \<Rightarrow> nat \<Rightarrow> 'a slot list step" where
  "std_copy T b first lst d_first =
     (if first \<le> lst then assign_forward T False first d_first (lst - first) b else UB)"

definition std_move :: "'a elem_ops \<Rightarrow> 'a slot list \<Rightarrow> nat \<Rightarrow> nat \<Rightarrow> nat \<Rightarrow> 'a slot list step" where
  "std_move T b first lst d_first =
     (if first \<le> lst then assign_forward T True first d_first (lst - first) b else UB)"

definition copy_backward :: "'a elem_ops \<Rightarrow> 'a slot list \<Rightarrow> nat \<Rightarrow> nat \<Rightarrow> nat \<Rightarrow> 'a slot list step" where
  "copy_backward T b first lst d_lst =
     (if first \<le> lst then assign_backward T False lst d_lst (lst - first) b else UB)"

definition move_backward :: "'a elem_ops \<Rightarrow> 'a slot list \<Rightarrow> nat \<Rightarrow> nat \<Rightarrow> nat \<Rightarrow> 'a slot list step" where
  "move_backward T b first lst d_lst =
     (if first \<le> lst then assign_backward T True lst d_lst (lst - first) b else UB)"

subsection \<open>\<^verbatim>\<open>RawMemory<T>\<close>\<close>

record 'a RawMemory =
  buffer_m :: "'a slot list"
  capacity_m :: nat

text \<open>
  \<^verbatim>\<open>operator new(bytes)\<close>: \<open>None\<close> is \<^verbatim>\<open>std::bad_alloc\<close>; a granted request yields
  a block of that many bytes, which has room for \<open>bytes div sizeof_T T\<close> objects.
\<close>

definition operator_new :: "'a elem_ops \<Rightarrow> nat \<Rightarrow> 'a slot list option" where
  "operator_new T bytes =
     (if alloc_ok T bytes then Some (replicate (bytes div sizeof_T T) None) else None)"

text \<open>
  \<^verbatim>\<open>Allocate(n)\<close>: \<^verbatim>\<open>n != 0 ? operator new(n * sizeof(T)) : nullptr\<close>. The product
  is computed in \<^verbatim>\<open>size_t\<close> and wraps around; the block that comes back has room for
  \<open>n\<close> objects only if it did not.
\<close>

definition Allocate :: "'a elem_ops \<Rightarrow> nat \<Rightarrow> 'a slot list option" where
  "Allocate T n = (if n \<noteq> 0 then operator_new T (wrap (n * sizeof_T T)) else Some [])"

definition RawMemory_default :: "'a RawMemory" where
  "RawMemory_default = \<lparr>buffer_m = [], capacity_m = 0\<rparr>"

definition RawMemory_sized :: "'a elem_ops \<Rightarrow> nat \<Rightarrow> 'a RawMemory option" where
  "RawMemory_sized T capacity =
     (case Allocate T capacity of
        None \<Rightarrow> None
      | Some b \<Rightarrow> Some \<lparr>buffer_m = b, capacity_m = capacity\<rparr>)"

text \<open>
  The destructor releases the block and destroys nothing: \<open>Deallocate m\<close> lists the
  objects that are alive in the block at that moment.
\<close>

definition Deallocate :: "'a RawMemory \<Rightarrow> 'a list" where
  "Deallocate m = concat (map (\<lambda>s. case s of None \<Rightarrow> [] | Some x \<Rightarrow> [x]) (buffer_m m))"

definition RawMemory_Swap :: "'a RawMemory \<Rightarrow> 'a RawMemory \<Rightarrow> 'a RawMemory \<times> 'a RawMemory" where
  "RawMemory_Swap m other =
     (m\<lparr>buffer_m := buffer_m other, capacity_m := capacity_m other\<rparr>,
      other\<lparr>buffer_m := buffer_m m, capacity_m := capacity_m m\<rparr>)"

text \<open>\<^verbatim>\<open>operator+\<close> and \<^verbatim>\<open>operator[]\<close> with their assertions; \<open>None\<close> is a failed assertion.\<close>

definition RawMemory_plus :: "'a RawMemory \<Rightarrow> nat \<Rightarrow> nat option" where
  "RawMemory_plus m offset = (if offset \<le> capacity_m m then Some offset else None)"

definition RawMemory_index :: "'a RawMemory \<Rightarrow> nat \<Rightarrow> nat option" where
  "RawMemory_index m index = (if index < capacity_m m then Some index else None)"

subsection \<open>\<^verbatim>\<open>Vector<T>\<close>\<close>

record 'a Vector =
  data_m :: "'a RawMemory"
  size_m :: nat

definition Size :: "'a Vector \<Rightarrow> nat" where
  "Size v = size_m v"

definition Capacity :: "'a Vector \<Rightarrow> nat" where
  "Capacity v = capacity_m (data_m v)"

definition set_buffer :: "'a Vector \<Rightarrow> 'a slot list \<Rightarrow> 'a Vector" where
  "set_buffer v b = v\<lparr>data_m := (data_m v)\<lparr>buffer_m := b\<rparr>\<rparr>"

text \<open>
  \<^verbatim>\<open>operator[]\<close>: the object in slot \<open>index\<close>; \<open>None\<close> when the assertion
  \<^verbatim>\<open>index < size_\<close> fails or the slot holds no object.
\<close>

definition subscript :: "'a Vector \<Rightarrow> nat \<Rightarrow> 'a option" where
  "subscript v index =
     (if index < size_m v \<and> index < capacity_m (data_m v) \<and> index < length (buffer_m (data_m v))
      then buffer_m (data_m v) ! index else None)"

definition begin_pos :: "'a Vector \<Rightarrow> nat" where
  "begin_pos v = 0"

definition end_pos :: "'a Vector \<Rightarrow> nat" where
  "end_pos v = size_m v"

definition Vector_default :: "'a Vector" where
  "Vector_default = \<lparr>data_m = RawMemory_default, size_m = 0\<rparr>"

definition Vector_Swap :: "'a Vector \<Rightarrow> 'a Vector \<Rightarrow> 'a Vector \<times> 'a Vector" where
  "Vector_Swap v other =
     (case RawMemory_Swap (data_m v) (data_m other) of
        (d, d_other) \<Rightarrow> (\<lparr>data_m = d, size_m = size_m other\<rparr>, \<lparr>data_m = d_other, size_m = size_m v\<rparr>))"

text \<open>\<^verbatim>\<open>explicit Vector(size_t size)\<close>\<close>

definition Vector_sized :: "'a elem_ops \<Rightarrow> nat \<Rightarrow> (unit, 'a Vector, 'a) outcome" where
  "Vector_sized T size' =
     (case RawMemory_sized T size' of
        None \<Rightarrow> Raised BadAlloc () []
      | Some d \<Rightarrow>
          (case uninitialized_value_construct_n T (buffer_m d) 0 size' of
             UB \<Rightarrow> Undefined
           | Throw b \<Rightarrow> Raised ElementThrow () (Deallocate (d\<lparr>buffer_m := b\<rparr>))
           | Ok b \<Rightarrow> Done () \<lparr>data_m = d\<lparr>buffer_m := b\<rparr>, size_m = size'\<rparr>))"

text \<open>\<^verbatim>\<open>Vector(const Vector& other)\<close>\<close>

definition Vector_copy :: "'a elem_ops \<Rightarrow> 'a Vector \<Rightarrow> (unit, 'a Vector, 'a) outcome" where
  "Vector_copy T other =
     (case RawMemory_sized T (size_m other) of
        None \<Rightarrow> Raised BadAlloc () []
      | Some d \<Rightarrow>
          (case uninitialized_copy_n T (buffer_m (data_m other)) 0 (size_m other) (buffer_m d) 0 of
             UB \<Rightarrow> Undefined
           | Throw (ob, b) \<Rightarrow> Raised ElementThrow () (Deallocate (d\<lparr>buffer_m := b\<rparr>))
           | Ok (ob, b) \<Rightarrow> Done () \<lparr>data_m = d\<lparr>buffer_m := b\<rparr>, size_m = size_m other\<rparr>))"

text \<open>
  \<^verbatim>\<open>Vector(Vector&& other)\<close>: the new object starts from the member initialisers (no
  block, size 0) and swaps with \<open>other\<close>. The result is the pair of the new object and
  \<open>other\<close> afterwards.
\<close>

definition Vector_move :: "'a Vector \<Rightarrow> 'a Vector \<times> 'a Vector" where
  "Vector_move other = Vector_Swap Vector_default other"

text \<open>
  \<^verbatim>\<open>operator=(Vector&& other)\<close> on two distinct objects: the pair of \<^verbatim>\<open>*this\<close> and
  \<open>other\<close> afterwards.
\<close>

definition move_assign :: "'a Vector \<Rightarrow> 'a Vector \<Rightarrow> 'a Vector \<times> 'a Vector" where
  "move_assign v other = Vector_Swap v other"

text \<open>\<^verbatim>\<open>~Vector()\<close>, followed by the destructor of \<^verbatim>\<open>data_\<close>: the objects left alive.\<close>

definition Vector_destroy :: "'a Vector \<Rightarrow> 'a list option" where
  "Vector_destroy v =
     (case destroy_n (buffer_m (data_m v)) 0 (size_m v) of
        None \<Rightarrow> None
      | Some b \<Rightarrow> Some (Deallocate ((data_m v)\<lparr>buffer_m := b\<rparr>)))"

text \<open>
  \<^verbatim>\<open>Reserve\<close>. The branch of \<^verbatim>\<open>if constexpr\<close> is chosen by \<open>use_move T\<close>. After the
  swap the local \<^verbatim>\<open>new_data\<close> holds the old block and releases it.
\<close>

definition Reserve :: "'a elem_ops \<Rightarrow> nat \<Rightarrow> 'a Vector \<Rightarrow> ('a Vector, unit, 'a) outcome" where
  "Reserve T new_capacity v =
     (if new_capacity \<le> capacity_m (data_m v) then Done v ()
      else
        (case RawMemory_sized T new_capacity of
           None \<Rightarrow> Raised BadAlloc v []
         | Some new_data \<Rightarrow>
            (case (if use_move T
                   then uninitialized_move_n T (buffer_m (data_m v)) 0 (size_m v) (buffer_m new_data) 0
                   else uninitialized_copy_n T (buffer_m (data_m v)) 0 (size_m v) (buffer_m new_data) 0) of
               UB \<Rightarrow> Undefined
             | Throw (ob, nb) \<Rightarrow>
                 Raised ElementThrow (set_buffer v ob) (Deallocate (new_data\<lparr>buffer_m := nb\<rparr>))
             | Ok (ob, nb) \<Rightarrow>
                (case destroy_n ob 0 (size_m v) of
                   None \<Rightarrow> Undefined
                 | Some ob' \<Rightarrow>
                    (case RawMemory_Swap ((data_m v)\<lparr>buffer_m := ob'\<rparr>) (new_data\<lparr>buffer_m := nb\<rparr>) of
                       (d, released) \<Rightarrow> Done (v\<lparr>data_m := d\<rparr>) ())))))"

definition Resize :: "'a elem_ops \<Rightarrow> nat \<Rightarrow> 'a Vector \<Rightarrow> ('a Vector, unit, 'a) outcome" where
  "Resize T new_size v =
     (case (if new_size > capacity_m (data_m v) then Reserve T new_size v else Done v ()) of
        Undefined \<Rightarrow> Undefined
      | Raised e v' l \<Rightarrow> Raised e v' l
      | Done v1 u \<Rightarrow>
          if new_size > size_m v1 then
            (case uninitialized_value_construct_n T (buffer_m (data_m v1)) (size_m v1)
                    (new_size - size_m v1) of
               UB \<Rightarrow> Undefined
             | Throw b \<Rightarrow> Raised ElementThrow (set_buffer v1 b) []
             | Ok b \<Rightarrow> Done ((set_buffer v1 b)\<lparr>size_m := new_size\<rparr>) ())
          else
            (case destroy_n (buffer_m (data_m v1)) new_size (size_m v1 - new_size) of
               None \<Rightarrow> Undefined
             | Some b \<Rightarrow> Done ((set_buffer v1 b)\<lparr>size_m := new_size\<rparr>) ()))"

text \<open>
  The capacity a growing append or insert asks for:
  \<^verbatim>\<open>data_.Capacity() == 0 ? 1 : data_.Capacity() * 2\<close>, computed in \<^verbatim>\<open>size_t\<close>.
\<close>

definition grown_capacity :: "nat \<Rightarrow> nat" where
  "grown_capacity c = (if c = 0 then 1 else wrap (c * 2))"

text \<open>
  \<^verbatim>\<open>PushBack\<close> and \<^verbatim>\<open>EmplaceBack\<close> have the same body up to the \<^verbatim>\<open>return\<close>; \<open>append_one\<close>
  is that body. In the growing branch the new element is constructed in the new block
  first; when the transfer of the old elements throws afterwards, the new block is released
  with whatever is still alive in it.
\<close>

definition append_one :: "'a elem_ops \<Rightarrow> 'a ctor_arg \<Rightarrow> 'a Vector \<Rightarrow> ('a Vector, unit, 'a) outcome" where
  "append_one T value v =
     (if size_m v < capacity_m (data_m v) then
        (case RawMemory_plus (data_m v) (size_m v) of
           None \<Rightarrow> Undefined
         | Some p \<Rightarrow>
            (case construct T value of
               None \<Rightarrow> Raised ElementThrow v []
             | Some x \<Rightarrow>
                (case construct_at (buffer_m (data_m v)) p x of
                   None \<Rightarrow> Undefined
                 | Some b \<Rightarrow> Done ((set_buffer v b)\<lparr>size_m := wrap (size_m v + 1)\<rparr>) ())))
      else
        (case RawMemory_sized T (grown_capacity (capacity_m (data_m v))) of
           None \<Rightarrow> Raised BadAlloc v []
         | Some new_data \<Rightarrow>
            (case RawMemory_plus new_data (size_m v) of
               None \<Rightarrow> Undefined
             | Some p \<Rightarrow>
                (case construct T value of
                   None \<Rightarrow> Raised ElementThrow v (Deallocate new_data)
                 | Some x \<Rightarrow>
                    (case construct_at (buffer_m new_data) p x of
                       None \<Rightarrow> Undefined
                     | Some nb0 \<Rightarrow>
                        (case (if use_move T
                               then uninitialized_move_n T (buffer_m (data_m v)) 0 (size_m v) nb0 0
                               else uninitialized_copy_n T (buffer_m (data_m v)) 0 (size_m v) nb0 0) of
                           UB \<Rightarrow> Undefined
                         | Throw (ob, nb) \<Rightarrow>
                             Raised ElementThrow (set_buffer v ob)
                               (Deallocate (new_data\<lparr>buffer_m := nb\<rparr>))
                         | Ok (ob, nb) \<Rightarrow>
                            (case destroy_n ob 0 (size_m v) of
                               None \<Rightarrow> Undefined
                             | Some ob' \<Rightarrow>
                                (case RawMemory_Swap ((data_m v)\<lparr>buffer_m := ob'\<rparr>)
                                        (new_data\<lparr>buffer_m := nb\<rparr>) of
                                   (d, released) \<Rightarrow>
                                     Done (v\<lparr>data_m := d, size_m := wrap (size_m v + 1)\<rparr>) ()))))))))"

definition PushBack :: "'a elem_ops \<Rightarrow> 'a ctor_arg \<Rightarrow> 'a Vector \<Rightarrow> ('a Vector, unit, 'a) outcome" where
  "PushBack T value v = append_one T value v"

text \<open>\<^verbatim>\<open>EmplaceBack\<close> returns \<^verbatim>\<open>data_[size_ - 1]\<close>: here the index of that slot.\<close>

definition EmplaceBack :: "'a elem_ops \<Rightarrow> 'a ctor_arg \<Rightarrow> 'a Vector \<Rightarrow> ('a Vector, nat, 'a) outcome" where
  "EmplaceBack T args v =
     (case append_one T args v of
        Undefined \<Rightarrow> Undefined
      | Raised e v' l \<Rightarrow> Raised e v' l
      | Done v' u \<Rightarrow>
         (case RawMemory_index (data_m v')
                 (if size_m v' = 0 then 2 ^ SIZE_WIDTH - 1 else size_m v' - 1) of
            None \<Rightarrow> Undefined
          | Some i \<Rightarrow> Done v' i))"

definition PopBack :: "'a Vector \<Rightarrow> ('a Vector, unit, 'a) outcome" where
  "PopBack v =
     (if size_m v > 0 then
        (case destroy_at (buffer_m (data_m v)) (size_m v - 1) of
           None \<Rightarrow> Undefined
         | Some b \<Rightarrow> Done ((set_buffer v b)\<lparr>size_m := size_m v - 1\<rparr>) ())
      else Done v ())"

text \<open>\<^verbatim>\<open>Erase\<close>; \<open>pos\<close> is \<^verbatim>\<open>pos - begin()\<close>. The result is the index of \<^verbatim>\<open>&data_[pos_number]\<close>.\<close>

definition Erase :: "'a elem_ops \<Rightarrow> nat \<Rightarrow> 'a Vector \<Rightarrow> ('a Vector, nat, 'a) outcome" where
  "Erase T pos v =
     (case (if use_move T
            then std_move T (buffer_m (data_m v)) (pos + 1) (end_pos v) pos
            else std_copy T (buffer_m (data_m v)) (pos + 1) (end_pos v) pos) of
        UB \<Rightarrow> Undefined
      | Throw b \<Rightarrow> Raised ElementThrow (set_buffer v b) []
      | Ok b \<Rightarrow>
         (case PopBack (set_buffer v b) of
            Undefined \<Rightarrow> Undefined
          | Raised e v' l \<Rightarrow> Raised e v' l
          | Done v' u \<Rightarrow>
             (case RawMemory_index (data_m v') pos of
                None \<Rightarrow> Undefined
              | Some i \<Rightarrow> Done v' i)))"

text \<open>
  Two single steps of \<^verbatim>\<open>Emplace\<close>: the placement new
  \<^verbatim>\<open>new (&data_[d]) T(std::move(data_[s]))\<close> (or its copying form), and the assignment
  \<^verbatim>\<open>data_[d] = std::move(new_el)\<close> from the local object \<^verbatim>\<open>new_el\<close>.
\<close>

definition construct_from_slot ::
  "'a elem_ops \<Rightarrow> bool \<Rightarrow> nat \<Rightarrow> nat \<Rightarrow> 'a slot list \<Rightarrow> 'a slot list step" where
  "construct_from_slot T mv s d b =
     (if s < length b \<and> d < length b then
        (case b ! s of
           None \<Rightarrow> UB
         | Some x \<Rightarrow>
             if ctor_throws T mv x then Throw b
             else Ok (b[s := Some (residue T mv x), d := Some x]))
      else UB)"

definition assign_value :: "'a elem_ops \<Rightarrow> bool \<Rightarrow> 'a \<Rightarrow> nat \<Rightarrow> 'a slot list \<Rightarrow> 'a slot list step" where
  "assign_value T mv x d b =
     (if d < length b then
        (case b ! d of
           None \<Rightarrow> UB
         | Some y \<Rightarrow> if assign_throws T mv x then Throw b else Ok (b[d := Some x]))
      else UB)"

text \<open>
  \<^verbatim>\<open>Emplace\<close>; \<open>pos\<close> is \<^verbatim>\<open>pos_number = pos - begin()\<close>. The result is the index of
  \<^verbatim>\<open>&data_[pos_number]\<close>.
\<close>

definition Emplace :: "'a elem_ops \<Rightarrow> nat \<Rightarrow> 'a ctor_arg \<Rightarrow> 'a Vector \<Rightarrow> ('a Vector, nat, 'a) outcome" where
  "Emplace T pos args v =
     (if size_m v < capacity_m (data_m v) then
        (if size_m v > 0 then
           (case construct T args of
              None \<Rightarrow> Raised ElementThrow v []
            | Some new_el \<Rightarrow>
               (case RawMemory_index (data_m v) (size_m v) of
                  None \<Rightarrow> Undefined
                | Some d \<Rightarrow>
                   (case RawMemory_index (data_m v) (size_m v - 1) of
                      None \<Rightarrow> Undefined
                    | Some s \<Rightarrow>
                       (case construct_from_slot T (use_move T) s d (buffer_m (data_m v)) of
                          UB \<Rightarrow> Undefined
                        | Throw b1 \<Rightarrow> Raised ElementThrow (set_buffer v b1) []
                        | Ok b1 \<Rightarrow>
                           (case (if use_move T
                                  then move_backward T b1 (begin_pos v + pos) (end_pos v - 1) (end_pos v)
                                  else copy_backward T b1 (begin_pos v + pos) (end_pos v - 1) (end_pos v)) of
                              UB \<Rightarrow> Undefined
                            | Throw b2 \<Rightarrow> Raised ElementThrow (set_buffer v b2) []
                            | Ok b2 \<Rightarrow>
                               (case RawMemory_index (data_m v) pos of
                                  None \<Rightarrow> Undefined
                                | Some p \<Rightarrow>
                                   (case assign_value T True new_el p b2 of
                                      UB \<Rightarrow> Undefined
                                    | Throw b3 \<Rightarrow> Raised ElementThrow (set_buffer v b3) []
                                    | Ok b3 \<Rightarrow>
                                        Done ((set_buffer v b3)\<lparr>size_m := wrap (size_m v + 1)\<rparr>) p)))))))
         else
           (case construct T args of
              None \<Rightarrow> Raised ElementThrow v []
            | Some x \<Rightarrow>
               (case construct_at (buffer_m (data_m v)) (end_pos v) x of
                  None \<Rightarrow> Undefined
                | Some b \<Rightarrow>
                   (case RawMemory_index (data_m v) pos of
                      None \<Rightarrow> Undefined
                    | Some p \<Rightarrow> Done ((set_buffer v b)\<lparr>size_m := wrap (size_m v + 1)\<rparr>) p))))
      else
        (case RawMemory_sized T
                (if capacity_m (data_m v) \<noteq> 0 then wrap (capacity_m (data_m v) * 2) else 1) of
           None \<Rightarrow> Raised BadAlloc v []
         | Some new_data \<Rightarrow>
            (case construct T args of
               None \<Rightarrow> Raised ElementThrow v (Deallocate new_data)
             | Some x \<Rightarrow>
                (case construct_at (buffer_m new_data) pos x of
                   None \<Rightarrow> Undefined
                 | Some nb0 \<Rightarrow>
                    if size_m v > 0 then
                      (case (if use_move T
                             then uninitialized_move T (buffer_m (data_m v)) (begin_pos v)
                                    (begin_pos v + pos) nb0 0
                             else uninitialized_copy T (buffer_m (data_m v)) (begin_pos v)
                                    (begin_pos v + pos) nb0 0) of
                         UB \<Rightarrow> Undefined
                       | Throw (ob1, nb1) \<Rightarrow>
                           Raised ElementThrow (set_buffer v ob1)
                             (Deallocate (new_data\<lparr>buffer_m := nb1\<rparr>))
                       | Ok (ob1, nb1) \<Rightarrow>
                          (case (if use_move T
                                 then uninitialized_move T ob1 (begin_pos v + pos) (end_pos v)
                                        nb1 (pos + 1)
                                 else uninitialized_copy T ob1 (begin_pos v + pos) (end_pos v)
                                        nb1 (pos + 1)) of
                             UB \<Rightarrow> Undefined
                           | Throw (ob2, nb2) \<Rightarrow>
                               Raised ElementThrow (set_buffer v ob2)
                                 (Deallocate (new_data\<lparr>buffer_m := nb2\<rparr>))
                           | Ok (ob2, nb2) \<Rightarrow>
                              (case destroy_n ob2 (begin_pos v) (size_m v) of
                                 None \<Rightarrow> Undefined
                               | Some ob3 \<Rightarrow>
                                  (case RawMemory_Swap ((data_m v)\<lparr>buffer_m := ob3\<rparr>)
                                          (new_data\<lparr>buffer_m := nb2\<rparr>) of
                                     (d, released) \<Rightarrow>
                                      (case RawMemory_index d pos of
                                         None \<Rightarrow> Undefined
                                       | Some p \<Rightarrow>
                                           Done (v\<lparr>data_m := d, size_m := wrap (size_m v + 1)\<rparr>) p)))))
                    else
                      (case RawMemory_Swap (data_m v) (new_data\<lparr>buffer_m := nb0\<rparr>) of
                         (d, released) \<Rightarrow>
                          (case RawMemory_index d pos of
                             None \<Rightarrow> Undefined
                           | Some p \<Rightarrow>
                               Done (v\<lparr>data_m := d, size_m := wrap (size_m v + 1)\<rparr>) p))))))"

text \<open>Both overloads of \<^verbatim>\<open>Insert\<close> forward to \<^verbatim>\<open>Emplace\<close>, one copying, one moving.\<close>

definition Insert :: "'a elem_ops \<Rightarrow> nat \<Rightarrow> 'a ctor_arg \<Rightarrow> 'a Vector \<Rightarrow> ('a Vector, nat, 'a) outcome" where
  "Insert T pos value v = Emplace T pos value v"

text \<open>
  Copy assignment, \<^verbatim>\<open>operator=(const Vector& rhs)\<close>, for \<open>rhs\<close> another object than
  \<^verbatim>\<open>*this\<close>. The loop counts in \<^verbatim>\<open>int\<close>: incrementing \<^verbatim>\<open>INT_MAX\<close> is undefined.
  \<open>assign_across\<close> is \<^verbatim>\<open>data_[i] = rhs.data_[i]\<close>.
\<close>

definition INT_MAX :: nat where
  "INT_MAX = 2 ^ 31 - 1"

definition assign_across :: "'a elem_ops \<Rightarrow> 'a RawMemory \<Rightarrow> 'a RawMemory \<Rightarrow> nat \<Rightarrow> 'a slot list step" where
  "assign_across T rhs_data d i =
     (case RawMemory_index d i of
        None \<Rightarrow> UB
      | Some j \<Rightarrow>
         (case RawMemory_index rhs_data i of
            None \<Rightarrow> UB
          | Some k \<Rightarrow>
             if k < length (buffer_m rhs_data) \<and> j < length (buffer_m d) then
               (case buffer_m rhs_data ! k of
                  None \<Rightarrow> UB
                | Some x \<Rightarrow>
                   (case buffer_m d ! j of
                      None \<Rightarrow> UB
                    | Some y \<Rightarrow>
                        if copy_assign_throws T x then Throw (buffer_m d)
                        else Ok ((buffer_m d)[j := Some x])))
             else UB))"

function copy_assign_loop ::
  "'a elem_ops \<Rightarrow> 'a Vector \<Rightarrow> nat \<Rightarrow> nat \<Rightarrow> 'a RawMemory \<Rightarrow> (nat \<times> 'a slot list) step" where
  "copy_assign_loop T rhs size' i d =
     (if i < size_m rhs \<and> i < size' then
        (case assign_across T (data_m rhs) d i of
           UB \<Rightarrow> UB
         | Throw b \<Rightarrow> Throw (i, b)
         | Ok b \<Rightarrow>
             if i = INT_MAX then UB
             else copy_assign_loop T rhs size' (i + 1) (d\<lparr>buffer_m := b\<rparr>))
      else Ok (i, buffer_m d))"
  by pat_completeness auto
termination
  by (relation "measure (\<lambda>(T, rhs, size', i, d). size' - i)") auto

declare copy_assign_loop.simps [simp del]

definition copy_assign :: "'a elem_ops \<Rightarrow> 'a Vector \<Rightarrow> 'a Vector \<Rightarrow> ('a Vector, unit, 'a) outcome" where
  "copy_assign T v rhs =
     (if capacity_m (data_m v) < size_m rhs then
        (case Vector_copy T rhs of
           Undefined \<Rightarrow> Undefined
         | Raised e u l \<Rightarrow> Raised e v l
         | Done u rhs_copy \<Rightarrow>
            (case Vector_Swap v rhs_copy of
               (v', old) \<Rightarrow>
                 (case Vector_destroy old of
                    None \<Rightarrow> Undefined
                  | Some l \<Rightarrow> Done v' ())))
      else
        (case copy_assign_loop T rhs (size_m v) 0 (data_m v) of
           UB \<Rightarrow> Undefined
         | Throw (i, b) \<Rightarrow> Raised ElementThrow (set_buffer v b) []
         | Ok (i, b) \<Rightarrow>
            (case uninitialized_copy_n T (buffer_m (data_m rhs)) i (size_m rhs - i) b i of
               UB \<Rightarrow> Undefined
             | Throw (rb, b') \<Rightarrow> Raised ElementThrow (set_buffer v b') []
             | Ok (rb, b') \<Rightarrow>
                (case destroy_n b' i (size_m v - i) of
                   None \<Rightarrow> Undefined
                 | Some b'' \<Rightarrow> Done ((set_buffer v b'')\<lparr>size_m := size_m rhs\<rparr>) ()))))"

subsection \<open>Well-formed vectors and sample objects\<close>

text \<open>
  A well-formed vector: the block has \<^verbatim>\<open>capacity_\<close> slots, at most \<^verbatim>\<open>PTRDIFF_MAX\<close>
  of them, \<^verbatim>\<open>size_\<close> does not exceed the capacity, and the first \<^verbatim>\<open>size_\<close> slots
  hold objects.
\<close>

definition valid :: "'a Vector \<Rightarrow> bool" where
  "valid v =
     (length (buffer_m (data_m v)) = capacity_m (data_m v)
      \<and> size_m v \<le> capacity_m (data_m v)
      \<and> capacity_m (data_m v) \<le> PTRDIFF_MAX
      \<and> list_all (\<lambda>s. s \<noteq> None) (take (size_m v) (buffer_m (data_m v))))"

text \<open>
  \<open>storage_fits T v\<close>: the element type has a size, and the block of \<open>v\<close> is one object,
  of at most \<^verbatim>\<open>PTRDIFF_MAX\<close> bytes.
\<close>

definition storage_fits :: "'a elem_ops \<Rightarrow> 'a Vector \<Rightarrow> bool" where
  "storage_fits T v =
     (0 < sizeof_T T \<and> sizeof_T T \<le> PTRDIFF_MAX
      \<and> capacity_m (data_m v) * sizeof_T T \<le> PTRDIFF_MAX)"

text \<open>The values of the elements, front to back.\<close>

definition elements :: "'a Vector \<Rightarrow> 'a slot list" where
  "elements v = take (size_m v) (buffer_m (data_m v))"

text \<open>\<open>vec xs c\<close> is the vector that holds \<open>xs\<close> in a block of \<open>c\<close> slots.\<close>

definition vec :: "'a list \<Rightarrow> nat \<Rightarrow> 'a Vector" where
  "vec xs c =
     \<lparr>data_m = \<lparr>buffer_m = map Some xs @ replicate (c - length xs) None, capacity_m = c\<rparr>,
      size_m = length xs\<rparr>"

text \<open>
  Element types for the examples: \<open>T_int\<close> behaves like a four-byte \<^verbatim>\<open>int\<close> with an
  allocator that grants every request; \<open>T_no_memory\<close> has an allocator that grants none;
  \<open>T_throwing\<close> is copyable, its move constructor is not \<^verbatim>\<open>noexcept\<close>, and copying the
  value 1 throws.
\<close>

definition T_int :: "int elem_ops" where
  "T_int = \<lparr>nothrow_move_constructible = True, copy_constructible = True,
     copy_ctor_throws = (\<lambda>x. False), move_ctor_throws = (\<lambda>x. False),
     copy_assign_throws = (\<lambda>x. False), move_assign_throws = (\<lambda>x. False),
     moved_from = (\<lambda>x. x), value_init = Some 0, sizeof_T = 4, alloc_ok = (\<lambda>n. True)\<rparr>"

definition T_no_memory :: "int elem_ops" where
  "T_no_memory = T_int\<lparr>alloc_ok := (\<lambda>n. False)\<rparr>"

definition T_throwing :: "int elem_ops" where
  "T_throwing = T_int\<lparr>nothrow_move_constructible := False, copy_ctor_throws := (\<lambda>x. x = 1)\<rparr>"

text \<open>
  \<open>transferable T v\<close>: the constructor that a transfer uses for \<open>T\<close> (move or copy, as
  \<open>use_move T\<close> says) throws on none of the elements of \<open>v\<close>.
\<close>

definition transferable :: "'a elem_ops \<Rightarrow> 'a Vector \<Rightarrow> bool" where
  "transferable T v =
     list_all (\<lambda>s. case s of None \<Rightarrow> True | Some x \<Rightarrow> \<not> ctor_throws T (use_move T) x) (elements v)"

text \<open>
  A run of \<^verbatim>\<open>PushBack\<close> calls, one for each argument in turn; the run ends at the
  first call that does not return normally.
\<close>

fun arg_value :: "'a ctor_arg \<Rightarrow> 'a" where
  "arg_value (CopyOf x) = x"
| "arg_value (MoveOf x) = x"

fun PushBack_all :: "'a elem_ops \<Rightarrow> 'a ctor_arg list \<Rightarrow> 'a Vector \<Rightarrow> ('a Vector, unit, 'a) outcome" where
  "PushBack_all T [] v = Done v ()"
| "PushBack_all T (a # as) v =
     (case PushBack T a v of
        Done v' u \<Rightarrow> PushBack_all T as v'
      | Raised e v' l \<Rightarrow> Raised e v' l
      | Undefined \<Rightarrow> Undefined)"

text \<open>\<open>grants_all T\<close>: the allocator grants every request of up to \<^verbatim>\<open>PTRDIFF_MAX\<close> bytes.\<close>

definition grants_all :: "'a elem_ops \<Rightarrow> bool" where
  "grants_all T = (\<forall>n. n \<le> PTRDIFF_MAX \<longrightarrow> alloc_ok T n)"

text \<open>
  \<open>assignable T mv xs\<close>: the assignment of \<open>T\<close> (move assignment when \<open>mv\<close>, copy
  assignment otherwise) throws on none of the objects in \<open>xs\<close>.
\<close>

definition assignable :: "'a elem_ops \<Rightarrow> bool \<Rightarrow> 'a slot list \<Rightarrow> bool" where
  "assignable T mv xs =
     list_all (\<lambda>s. case s of None \<Rightarrow> True | Some x \<Rightarrow> \<not> assign_throws T mv x) xs"

subsection \<open>Reachable states\<close>

text \<open>
  \<open>state_after\<close> is the state an outcome leaves the object in: the state after a normal
  return, the state an exception leaves behind, and none where the behaviour is undefined.
\<close>

fun state_after :: "('s, 'r, 'a) outcome \<Rightarrow> 's option" where
  "state_after (Done s r) = Some s"
| "state_after (Raised e s l) = Some s"
| "state_after Undefined = None"

text \<open>The public member functions that change one vector, with their arguments.\<close>

datatype 'a vector_op =
    Op_Reserve nat
  | Op_Resize nat
  | Op_PushBack "'a ctor_arg"
  | Op_PopBack
  | Op_EmplaceBack "'a ctor_arg"
  | Op_Insert nat "'a ctor_arg"
  | Op_Erase nat
  | Op_Emplace nat "'a ctor_arg"

fun run_op :: "'a elem_ops \<Rightarrow> 'a vector_op \<Rightarrow> 'a Vector \<Rightarrow> 'a Vector option" where
  "run_op T (Op_Reserve n) v = state_after (Reserve T n v)"
| "run_op T (Op_Resize n) v = state_after (Resize T n v)"
| "run_op T (Op_PushBack a) v = state_after (PushBack T a v)"
| "run_op T Op_PopBack v = state_after (PopBack v :: ('a Vector, unit, 'a) outcome)"
| "run_op T (Op_EmplaceBack a) v = state_after (EmplaceBack T a v)"
| "run_op T (Op_Insert pos a) v = state_after (Insert T pos a v)"
| "run_op T (Op_Erase pos) v = state_after (Erase T pos v)"
| "run_op T (Op_Emplace pos a) v = state_after (Emplace T pos a v)"

text \<open>
  A write through the reference that \<^verbatim>\<open>operator[]\<close> returns, or through an iterator
  to an element: the object in the slot takes a new value.
\<close>

definition store :: "nat \<Rightarrow> 'a \<Rightarrow> 'a Vector \<Rightarrow> 'a Vector option" where
  "store index x v =
     (case subscript v index of
        None \<Rightarrow> None
      | Some y \<Rightarrow> Some (set_buffer v ((buffer_m (data_m v))[index := Some x])))"

text \<open>
  The states a vector of element type \<open>T\<close> can be in: the states the constructors
  produce, the states the member functions produce from reachable states, whether they
  return normally or leave with an exception, and the states after a write to an element.
  Where a member function takes a second vector, that one is reachable too, and so is its
  state afterwards.
\<close>

inductive reachable :: "'a elem_ops \<Rightarrow> 'a Vector \<Rightarrow> bool" for T :: "'a elem_ops" where
  reach_default: "reachable T Vector_default"
| reach_sized: "Vector_sized T n = Done () v \<Longrightarrow> reachable T v"
| reach_copy: "reachable T other \<Longrightarrow> Vector_copy T other = Done () v \<Longrightarrow> reachable T v"
| reach_move: "reachable T other \<Longrightarrow> Vector_move other = (v, other') \<Longrightarrow> reachable T v"
| reach_moved_from: "reachable T other \<Longrightarrow> Vector_move other = (v, other') \<Longrightarrow> reachable T other'"
| reach_copy_assign:
    "reachable T v \<Longrightarrow> reachable T rhs \<Longrightarrow> state_after (copy_assign T v rhs) = Some v' \<Longrightarrow>
     reachable T v'"
| reach_move_assign:
    "reachable T v \<Longrightarrow> reachable T other \<Longrightarrow> move_assign v other = (v', other') \<Longrightarrow>
     reachable T v'"
| reach_move_assigned_from:
    "reachable T v \<Longrightarrow> reachable T other \<Longrightarrow> move_assign v other = (v', other') \<Longrightarrow>
     reachable T other'"
| reach_op: "reachable T v \<Longrightarrow> run_op T op v = Some v' \<Longrightarrow> reachable T v'"
| reach_store: "reachable T v \<Longrightarrow> store index x v = Some v' \<Longrightarrow> reachable T v'"

text \<open>\<open>grows b b'\<close>: the block has kept its length, and every slot that held an object still does.\<close>

definition grows :: "'a slot list \<Rightarrow> 'a slot list \<Rightarrow> bool" where
  "grows b b' = (length b' = length b \<and> (\<forall>i<length b. b ! i \<noteq> None \<longrightarrow> b' ! i \<noteq> None))"

section \<open>Properties\<close>

subsection \<open>Basic facts\<close>

lemma valid_iff:
  "valid v \<longleftrightarrow>
     length (buffer_m (data_m v)) = capacity_m (data_m v)
     \<and> size_m v \<le> capacity_m (data_m v)
     \<and> capacity_m (data_m v) \<le> PTRDIFF_MAX
     \<and> (\<forall>i<size_m v. buffer_m (data_m v) ! i \<noteq> None)"
  by (auto simp: valid_def list_all_length)

subsection \<open>Moving a vector\<close>

text \<open>
  C1, as the code has it. Move construction gives the new vector the state of the source
  (size, capacity and block) and leaves the source empty, with size 0 and capacity 0. Move
  assignment exchanges the two vectors: the target gets the state of the source, and the
  source gets the former state of the target, so it is empty only if the target was.
\<close>

theorem move_semantics:
  "Vector_move A = (A, Vector_default) \<and> move_assign B A = (A, B)
   \<and> Size (Vector_default :: 'a Vector) = 0 \<and> Capacity (Vector_default :: 'a Vector) = 0"
  by (simp add: Vector_move_def move_assign_def Vector_Swap_def RawMemory_Swap_def
        Vector_default_def RawMemory_default_def Size_def Capacity_def)

text \<open>
  C1 as stated fails: after move assignment of the vector holding 1, 2 into the vector
  holding 7, the source holds 7, with size 1 and capacity 1.
\<close>

theorem move_assign_counterexample:
  "\<not> (Size (snd (move_assign (vec [7::int] 1) (vec [1, 2] 2))) = 0
      \<and> Capacity (snd (move_assign (vec [7::int] 1) (vec [1, 2] 2))) = 0)"
  by (simp add: move_assign_def Vector_Swap_def RawMemory_Swap_def Size_def Capacity_def vec_def)

subsection \<open>\<^verbatim>\<open>PopBack\<close>\<close>

text \<open>
  C7. On a vector of size 0 \<^verbatim>\<open>PopBack\<close> returns normally and changes nothing. On a
  well-formed vector of positive size it returns normally, the size is one less, the
  capacity is the same, the elements at the indices below the new size are unchanged, and
  the slot of the former last element holds no object any more.
\<close>

theorem PopBack_spec:
  "(size_m v = 0 \<longrightarrow> PopBack v = Done v ())
   \<and> (valid v \<and> 0 < size_m v \<longrightarrow>
        (\<exists>v'. PopBack v = Done v' () \<and> Size v' = Size v - 1 \<and> Capacity v' = Capacity v
           \<and> (\<forall>i < Size v - 1. subscript v' i = subscript v i)
           \<and> buffer_m (data_m v') ! (Size v - 1) = None \<and> valid v'))"
proof (intro conjI impI)
  assume "size_m v = 0"
  then show "PopBack v = Done v ()" by (simp add: PopBack_def)
next
  assume h: "valid v \<and> 0 < size_m v"
  let ?b = "buffer_m (data_m v)"
  let ?n = "size_m v - 1"
  from h have len: "length ?b = capacity_m (data_m v)" and le: "size_m v \<le> capacity_m (data_m v)"
    and live: "\<forall>i<size_m v. ?b ! i \<noteq> None" and pos: "0 < size_m v"
    and cap: "capacity_m (data_m v) \<le> PTRDIFF_MAX"
    by (simp_all add: valid_iff)
  from pos le len have n: "?n < length ?b" by arith
  from pos live have "?b ! ?n \<noteq> None" by simp
  with n have d: "destroy_at ?b ?n = Some (?b[?n := None])" by (simp add: destroy_at_def)
  let ?v' = "(set_buffer v (?b[?n := None]))\<lparr>size_m := ?n\<rparr>"
  from pos d have run: "PopBack v = Done ?v' ()" by (simp add: PopBack_def)
  have sub: "\<forall>i < Size v - 1. subscript ?v' i = subscript v i"
    using le len by (auto simp: subscript_def set_buffer_def Size_def)
  have val: "valid ?v'"
    using len le cap live by (auto simp: valid_iff set_buffer_def)
  show "\<exists>v'. PopBack v = Done v' () \<and> Size v' = Size v - 1 \<and> Capacity v' = Capacity v
           \<and> (\<forall>i < Size v - 1. subscript v' i = subscript v i)
           \<and> buffer_m (data_m v') ! (Size v - 1) = None \<and> valid v'"
    using run sub val n by (intro exI[of _ ?v']) (simp add: Size_def Capacity_def set_buffer_def)
qed

theorem PopBack_spec_witness:
  "size_m (vec ([]::int list) 0) = 0 \<and> PopBack (vec ([]::int list) 0) = Done (vec [] 0) ()
   \<and> valid (vec [1, 2::int] 2) \<and> 0 < size_m (vec [1, 2::int] 2)
   \<and> (\<exists>v'. PopBack (vec [1, 2::int] 2) = Done v' () \<and> Size v' = Size (vec [1, 2::int] 2) - 1
           \<and> Capacity v' = Capacity (vec [1, 2::int] 2)
           \<and> (\<forall>i < Size (vec [1, 2::int] 2) - 1. subscript v' i = subscript (vec [1, 2::int] 2) i)
           \<and> buffer_m (data_m v') ! (Size (vec [1, 2::int] 2) - 1) = None \<and> valid v')"
proof -
  have a: "size_m (vec ([]::int list) 0) = 0" by (simp add: vec_def)
  have b: "valid (vec [1, 2::int] 2) \<and> 0 < size_m (vec [1, 2::int] 2)"
    by (simp add: valid_def vec_def PTRDIFF_MAX_def)
  from a b PopBack_spec [of "vec ([]::int list) 0"] PopBack_spec [of "vec [1, 2::int] 2"]
  show ?thesis by blast
qed

subsection \<open>Allocation failure\<close>

text \<open>
  C10. When \<^verbatim>\<open>Reserve\<close> has to allocate and the allocation fails, and when a
  \<^verbatim>\<open>PushBack\<close>, \<^verbatim>\<open>EmplaceBack\<close>, \<^verbatim>\<open>Insert\<close> or \<^verbatim>\<open>Emplace\<close> on a vector without
  spare capacity has to allocate and the allocation fails, the call ends with the
  allocation error, the vector is in exactly the state it had before the call, and no
  object is lost.
\<close>

theorem allocation_failure_leaves_vector_unmodified:
  "(capacity_m (data_m v) < n \<and> Allocate T n = None \<longrightarrow> Reserve T n v = Raised BadAlloc v [])
   \<and> (\<not> size_m v < capacity_m (data_m v)
        \<and> Allocate T (grown_capacity (capacity_m (data_m v))) = None \<longrightarrow>
          PushBack T a v = Raised BadAlloc v [] \<and> EmplaceBack T a v = Raised BadAlloc v []
          \<and> Insert T pos a v = Raised BadAlloc v [] \<and> Emplace T pos a v = Raised BadAlloc v [])"
  by (simp add: Reserve_def PushBack_def EmplaceBack_def Insert_def Emplace_def append_one_def
        RawMemory_sized_def grown_capacity_def)

theorem allocation_failure_witness:
  "capacity_m (data_m (vec [1::int] 1)) < 5 \<and> Allocate T_no_memory 5 = None
   \<and> Reserve T_no_memory 5 (vec [1] 1) = Raised BadAlloc (vec [1] 1) []
   \<and> \<not> size_m (vec [1::int] 1) < capacity_m (data_m (vec [1::int] 1))
   \<and> Allocate T_no_memory (grown_capacity (capacity_m (data_m (vec [1::int] 1)))) = None
   \<and> PushBack T_no_memory (CopyOf 2) (vec [1] 1) = Raised BadAlloc (vec [1] 1) []
   \<and> EmplaceBack T_no_memory (CopyOf 2) (vec [1] 1) = Raised BadAlloc (vec [1] 1) []
   \<and> Insert T_no_memory 0 (CopyOf 2) (vec [1] 1) = Raised BadAlloc (vec [1] 1) []
   \<and> Emplace T_no_memory 0 (CopyOf 2) (vec [1] 1) = Raised BadAlloc (vec [1] 1) []"
proof -
  have a: "capacity_m (data_m (vec [1::int] 1)) < 5 \<and> Allocate T_no_memory 5 = None"
    by (simp add: vec_def Allocate_def operator_new_def T_no_memory_def)
  have b: "\<not> size_m (vec [1::int] 1) < capacity_m (data_m (vec [1::int] 1))
     \<and> Allocate T_no_memory (grown_capacity (capacity_m (data_m (vec [1::int] 1)))) = None"
    by (simp add: vec_def Allocate_def operator_new_def T_no_memory_def grown_capacity_def
        wrap_def SIZE_WIDTH_def)
  from a b
    allocation_failure_leaves_vector_unmodified [of "vec [1::int] 1" 5 T_no_memory "CopyOf 2" 0]
  show ?thesis by blast
qed

subsection \<open>Evaluating the algorithms at numerals\<close>

lemma small_le_PTRDIFF_MAX: "n \<le> 64 \<Longrightarrow> n \<le> PTRDIFF_MAX"
  by (simp add: PTRDIFF_MAX_def)

lemma wrap_small: "n \<le> 64 \<Longrightarrow> wrap n = n"
  by (simp add: wrap_def SIZE_WIDTH_def)

lemma replicate_numeral: "replicate (numeral k) x = x # replicate (pred_numeral k) x"
  by (simp add: numeral_eq_Suc)

lemma list_update_numeral: "(x # xs)[numeral k := y] = x # xs[pred_numeral k := y]"
  by (simp add: numeral_eq_Suc)

lemma destroy_n_numeral:
  "destroy_n b first (numeral k) =
     (case destroy_at b first of None \<Rightarrow> None | Some b' \<Rightarrow> destroy_n b' (Suc first) (pred_numeral k))"
  by (simp add: numeral_eq_Suc)

lemma uninitialized_transfer_numeral:
  "uninitialized_transfer T mv first d_first k (numeral m) src dst =
     (if first + k < length src \<and> d_first + k < length dst then
        (case src ! (first + k) of
           None \<Rightarrow> UB
         | Some x \<Rightarrow>
             if ctor_throws T mv x then
               (case destroy_n dst d_first k of
                  None \<Rightarrow> UB
                | Some dst' \<Rightarrow> Throw (src, dst'))
             else uninitialized_transfer T mv first d_first (Suc k) (pred_numeral m)
                    (src[first + k := Some (residue T mv x)]) (dst[d_first + k := Some x]))
      else UB)"
  by (simp add: numeral_eq_Suc)

lemmas eval_defs = vec_def T_int_def T_no_memory_def T_throwing_def
  RawMemory_sized_def Allocate_def operator_new_def small_le_PTRDIFF_MAX wrap_small
  use_move_def uninitialized_move_n_def uninitialized_copy_n_def uninitialized_move_def
  uninitialized_copy_def ctor_throws_def assign_throws_def residue_def destroy_at_def construct_at_def
  RawMemory_Swap_def RawMemory_plus_def RawMemory_index_def set_buffer_def Deallocate_def
  replicate_numeral list_update_numeral destroy_n_numeral uninitialized_transfer_numeral
  grown_capacity_def begin_pos_def end_pos_def

subsection \<open>Destroying and transferring elements\<close>

lemma destroy_n_Some:
  "destroy_n b first n = Some b' \<Longrightarrow>
     length b' = length b \<and> (0 < n \<longrightarrow> first + n \<le> length b)
     \<and> (\<forall>i<length b. b' ! i = (if first \<le> i \<and> i < first + n then None else b ! i))"
proof (induction n arbitrary: b first)
  case 0
  then show ?case by auto
next
  case (Suc n)
  from Suc.prems obtain b1 where d: "destroy_at b first = Some b1"
    and r: "destroy_n b1 (Suc first) n = Some b'"
    by (auto split: option.splits)
  from d have b1: "b1 = b[first := None]" and f: "first < length b"
    by (auto simp: destroy_at_def split: if_splits)
  from Suc.IH [OF r] b1 f show ?case
    by (auto simp: nth_list_update split: if_splits)
qed

lemma destroy_n_ok:
  "first + n \<le> length b \<Longrightarrow> (\<forall>i. first \<le> i \<and> i < first + n \<longrightarrow> b ! i \<noteq> None) \<Longrightarrow>
     \<exists>b'. destroy_n b first n = Some b'"
proof (induction n arbitrary: b first)
  case 0
  then show ?case by auto
next
  case (Suc n)
  from Suc.prems have d: "destroy_at b first = Some (b[first := None])"
    by (simp add: destroy_at_def)
  have "\<exists>b'. destroy_n (b[first := None]) (Suc first) n = Some b'"
    using Suc.prems by (intro Suc.IH) auto
  with d show ?case by simp
qed

lemma transfer_ok:
  assumes "first + k + n \<le> length src" and "d_first + k + n \<le> length dst"
    and "\<forall>i. first + k \<le> i \<and> i < first + k + n \<longrightarrow> (\<exists>x. src ! i = Some x \<and> \<not> ctor_throws T mv x)"
  shows "\<exists>src' dst'. uninitialized_transfer T mv first d_first k n src dst = Ok (src', dst')
     \<and> length src' = length src \<and> length dst' = length dst
     \<and> (\<forall>j<length dst. dst' ! j =
          (if d_first + k \<le> j \<and> j < d_first + k + n then src ! (first + (j - d_first)) else dst ! j))
     \<and> (\<forall>i<length src. (src' ! i \<noteq> None) = (src ! i \<noteq> None))
     \<and> (\<forall>i<length src. i < first + k \<or> first + k + n \<le> i \<longrightarrow> src' ! i = src ! i)"
  using assms
proof (induction n arbitrary: k src dst)
  case 0
  then show ?case by auto
next
  case (Suc n)
  from Suc.prems obtain x where x: "src ! (first + k) = Some x" and nt: "\<not> ctor_throws T mv x"
    by (metis le_refl lessI less_add_Suc2 add_Suc_right le_add2 less_add_same_cancel1 zero_less_Suc)
  let ?src = "src[first + k := Some (residue T mv x)]"
  let ?dst = "dst[d_first + k := Some x]"
  have "\<exists>src' dst'. uninitialized_transfer T mv first d_first (Suc k) n ?src ?dst = Ok (src', dst')
     \<and> length src' = length ?src \<and> length dst' = length ?dst
     \<and> (\<forall>j<length ?dst. dst' ! j =
          (if d_first + Suc k \<le> j \<and> j < d_first + Suc k + n then ?src ! (first + (j - d_first)) else ?dst ! j))
     \<and> (\<forall>i<length ?src. (src' ! i \<noteq> None) = (?src ! i \<noteq> None))
     \<and> (\<forall>i<length ?src. i < first + Suc k \<or> first + Suc k + n \<le> i \<longrightarrow> src' ! i = ?src ! i)"
    using Suc.prems by (intro Suc.IH) (auto simp: nth_list_update)
  then obtain src' dst' where r: "uninitialized_transfer T mv first d_first (Suc k) n ?src ?dst = Ok (src', dst')"
    and l1: "length src' = length src" and l2: "length dst' = length dst"
    and d: "\<forall>j<length dst. dst' ! j =
          (if d_first + Suc k \<le> j \<and> j < d_first + Suc k + n then ?src ! (first + (j - d_first)) else ?dst ! j)"
    and s1: "\<forall>i<length src. (src' ! i \<noteq> None) = (?src ! i \<noteq> None)"
    and s2: "\<forall>i<length src. i < first + Suc k \<or> first + Suc k + n \<le> i \<longrightarrow> src' ! i = ?src ! i"
    by auto
  from Suc.prems x nt r have run: "uninitialized_transfer T mv first d_first k (Suc n) src dst = Ok (src', dst')"
    by simp
  have d': "\<forall>j<length dst. dst' ! j =
          (if d_first + k \<le> j \<and> j < d_first + k + Suc n then src ! (first + (j - d_first)) else dst ! j)"
  proof (intro allI impI)
    fix j assume j: "j < length dst"
    show "dst' ! j = (if d_first + k \<le> j \<and> j < d_first + k + Suc n then src ! (first + (j - d_first)) else dst ! j)"
    proof (cases "j = d_first + k")
      case True
      with d [rule_format, OF j] j x show ?thesis by simp
    next
      case False
      have "first + (j - d_first) \<noteq> first + k" if "d_first + Suc k \<le> j"
        using that by arith
      with False d [rule_format, OF j] j show ?thesis
        by (auto simp: nth_list_update)
    qed
  qed
  have s1': "\<forall>i<length src. (src' ! i \<noteq> None) = (src ! i \<noteq> None)"
  proof (intro allI impI)
    fix i assume i: "i < length src"
    show "(src' ! i \<noteq> None) = (src ! i \<noteq> None)"
    proof (cases "i = first + k")
      case True
      with s1 [rule_format, OF i] i x show ?thesis by simp
    next
      case False
      with s1 [rule_format, OF i] i show ?thesis by simp
    qed
  qed
  have s2': "\<forall>i<length src. i < first + k \<or> first + k + Suc n \<le> i \<longrightarrow> src' ! i = src ! i"
    using s2 by (auto simp: nth_list_update)
  from run l1 l2 d' s1' s2' show ?case by blast
qed

lemma transferable_nth:
  "transferable T v \<Longrightarrow> size_m v \<le> length (buffer_m (data_m v)) \<Longrightarrow> i < size_m v \<Longrightarrow>
     buffer_m (data_m v) ! i = Some x \<Longrightarrow> \<not> ctor_throws T (use_move T) x"
  by (auto simp: transferable_def elements_def list_all_length split: option.splits)

lemma nothrow_transferable: "nothrow T \<Longrightarrow> transferable T v"
  by (auto simp: transferable_def nothrow_def ctor_throws_def list_all_iff split: option.splits)

lemma transfer_dispatch_n:
  "(if use_move T then uninitialized_move_n T src first n dst d_first
    else uninitialized_copy_n T src first n dst d_first)
   = uninitialized_transfer T (use_move T) first d_first 0 n src dst"
  by (simp add: uninitialized_move_n_def uninitialized_copy_n_def)

lemma whole_transfer:
  assumes v: "valid v" and nb0: "size_m v \<le> length nb0" and t: "transferable T v"
    and mv: "mv = use_move T"
  shows "\<exists>ob nb ob'. uninitialized_transfer T mv 0 0 0 (size_m v) (buffer_m (data_m v)) nb0 = Ok (ob, nb)
      \<and> destroy_n ob 0 (size_m v) = Some ob' \<and> length nb = length nb0
      \<and> (\<forall>j<length nb0. nb ! j = (if j < size_m v then buffer_m (data_m v) ! j else nb0 ! j))"
proof -
  let ?b = "buffer_m (data_m v)"
  from v have len: "size_m v \<le> length ?b" and live: "\<forall>i<size_m v. ?b ! i \<noteq> None"
    by (simp_all add: valid_iff)
  have ok: "\<forall>i. 0 + 0 \<le> i \<and> i < 0 + 0 + size_m v \<longrightarrow> (\<exists>x. ?b ! i = Some x \<and> \<not> ctor_throws T mv x)"
    using live transferable_nth [OF t len] mv by auto
  from transfer_ok [of 0 0 "size_m v" ?b 0 nb0 T mv] len nb0 ok
  obtain ob nb where r: "uninitialized_transfer T mv 0 0 0 (size_m v) ?b nb0 = Ok (ob, nb)"
    and l1: "length ob = length ?b" and l2: "length nb = length nb0"
    and d: "\<forall>j<length nb0. nb ! j = (if j < size_m v then ?b ! (0 + (j - 0)) else nb0 ! j)"
    and s: "\<forall>i<length ?b. (ob ! i \<noteq> None) = (?b ! i \<noteq> None)"
    by auto
  have "\<exists>ob'. destroy_n ob 0 (size_m v) = Some ob'"
    using len l1 live s by (intro destroy_n_ok) auto
  with r l2 d show ?thesis by auto
qed

lemma elements_eqI:
  "size_m v' = size_m v \<Longrightarrow> size_m v \<le> length (buffer_m (data_m v)) \<Longrightarrow>
   size_m v \<le> length (buffer_m (data_m v')) \<Longrightarrow>
   (\<forall>i<size_m v. buffer_m (data_m v') ! i = buffer_m (data_m v) ! i) \<Longrightarrow> elements v' = elements v"
  by (auto simp: elements_def intro: nth_equalityI)

lemma subscript_elements:
  "valid v \<Longrightarrow> i < size_m v \<Longrightarrow> subscript v i = elements v ! i"
  by (simp add: subscript_def elements_def valid_iff)

subsection \<open>\<^verbatim>\<open>Reserve\<close>\<close>

text \<open>
  Where \<^verbatim>\<open>Allocate(n)\<close> comes back with room for \<open>n\<close> objects, \<^verbatim>\<open>Reserve\<close> does what C6
  says: with \<open>n\<close> not above the capacity it returns normally and changes nothing; on a
  well-formed vector with a smaller capacity, when the transfer constructor throws on no
  element, it returns normally, the capacity is exactly \<open>n\<close>, and the size and the element
  at every index below the size are as before; and whenever it returns normally, the
  capacity has not decreased and a second \<^verbatim>\<open>Reserve(n)\<close> changes nothing.
\<close>

lemma wrap_le: "wrap n \<le> n"
  by (simp add: wrap_def)

lemma wrap_id: "n < 2 ^ 64 \<Longrightarrow> wrap n = n"
  by (simp add: wrap_def SIZE_WIDTH_def)

lemma Allocate_length: "Allocate T n = Some b \<Longrightarrow> length b \<le> n"
proof (cases "sizeof_T T = 0")
  case True
  assume "Allocate T n = Some b"
  with True show ?thesis
    by (auto simp: Allocate_def operator_new_def split: if_splits)
next
  case False
  assume a: "Allocate T n = Some b"
  have "wrap (n * sizeof_T T) div sizeof_T T \<le> n * sizeof_T T div sizeof_T T"
    by (rule div_le_mono) (rule wrap_le)
  also have "\<dots> = n" using False by simp
  finally show ?thesis using a
    by (auto simp: Allocate_def operator_new_def split: if_splits)
qed

lemma Allocate_room:
  assumes "0 < sizeof_T T" and "n * sizeof_T T < 2 ^ 64" and "Allocate T n \<noteq> None"
  shows "Allocate T n = Some (replicate n None)"
  using assms by (auto simp: Allocate_def operator_new_def wrap_id split: if_splits)

lemma Reserve_with_room:
  "(n \<le> Capacity v \<longrightarrow> Reserve T n v = Done v ())
   \<and> (valid v \<and> Capacity v < n \<and> Allocate T n = Some (replicate n None) \<and> transferable T v \<longrightarrow>
        (\<exists>v'. Reserve T n v = Done v' () \<and> Capacity v' = n \<and> Size v' = Size v
           \<and> (\<forall>i<Size v. subscript v' i = subscript v i) \<and> elements v' = elements v
           \<and> (n \<le> PTRDIFF_MAX \<longrightarrow> valid v')))
   \<and> (\<forall>v'. Reserve T n v = Done v' () \<longrightarrow> Capacity v \<le> Capacity v' \<and> Reserve T n v' = Done v' ())"
proof (intro conjI impI allI)
  assume "n \<le> Capacity v"
  then show "Reserve T n v = Done v ()" by (simp add: Reserve_def Capacity_def)
next
  fix v' assume "Reserve T n v = Done v' ()"
  then have "Capacity v \<le> Capacity v' \<and> n \<le> Capacity v'"
    by (auto simp: Reserve_def Capacity_def RawMemory_sized_def RawMemory_Swap_def
        split: if_splits option.splits step.splits prod.splits)
  then show "Capacity v \<le> Capacity v'" and "Reserve T n v' = Done v' ()"
    by (simp_all add: Reserve_def Capacity_def)
next
  assume h: "valid v \<and> Capacity v < n \<and> Allocate T n = Some (replicate n None) \<and> transferable T v"
  let ?b = "buffer_m (data_m v)"
  from h have v: "valid v" and lt: "capacity_m (data_m v) < n" and t: "transferable T v"
    and al: "Allocate T n = Some (replicate n None)"
    by (simp_all add: Capacity_def)
  from v have len: "length ?b = capacity_m (data_m v)" and le: "size_m v \<le> capacity_m (data_m v)"
    and live: "\<forall>i<size_m v. ?b ! i \<noteq> None"
    by (simp_all add: valid_iff)
  have fit: "size_m v \<le> length (replicate n (None :: 'a option))" using le lt by simp
  from whole_transfer [OF v fit t refl]
  obtain ob nb ob' where
    r: "uninitialized_transfer T (use_move T) 0 0 0 (size_m v) ?b (replicate n None) = Ok (ob, nb)"
    and d: "destroy_n ob 0 (size_m v) = Some ob'" and l: "length nb = n"
    and c: "\<forall>j<n. nb ! j = (if j < size_m v then ?b ! j else replicate n None ! j)"
    by auto
  let ?v' = "v\<lparr>data_m := \<lparr>buffer_m = nb, capacity_m = n\<rparr>\<rparr>"
  have run: "Reserve T n v = Done ?v' ()"
    using lt al r d
    by (simp add: Reserve_def RawMemory_sized_def transfer_dispatch_n RawMemory_Swap_def)
  have same: "\<forall>i<size_m v. nb ! i = ?b ! i"
    using c le lt by auto
  have val: "n \<le> PTRDIFF_MAX \<longrightarrow> valid ?v'"
    using l le lt live same by (simp add: valid_iff)
  have el: "elements ?v' = elements v"
    using same l le lt len by (intro elements_eqI) simp_all
  have sub: "\<forall>i<Size v. subscript ?v' i = subscript v i"
    using same l le lt len by (simp add: subscript_def Size_def)
  show "\<exists>v'. Reserve T n v = Done v' () \<and> Capacity v' = n \<and> Size v' = Size v
           \<and> (\<forall>i<Size v. subscript v' i = subscript v i) \<and> elements v' = elements v
           \<and> (n \<le> PTRDIFF_MAX \<longrightarrow> valid v')"
    using run val el sub by (intro exI [of _ ?v']) (simp add: Capacity_def Size_def)
qed

text \<open>
  C6, at the inputs where the code departs from it. \<^verbatim>\<open>Allocate(n)\<close> asks
  \<^verbatim>\<open>operator new\<close> for \<^verbatim>\<open>n * sizeof(T)\<close> bytes, a product that wraps around in
  \<^verbatim>\<open>size_t\<close>. When the wrapped byte count is smaller than one object and the request is
  granted, the new block has no room for any object, although its \<^verbatim>\<open>capacity_\<close> says
  \<open>n\<close>. \<^verbatim>\<open>Reserve(n)\<close> on a well-formed, non-empty vector then transfers its elements to
  slots outside the new block: the behaviour is undefined, where C6 promises a capacity of
  \<open>n\<close> with the elements preserved (and the specification an allocation error).
\<close>

theorem Reserve_wrapped_request:
  assumes "valid v" and "0 < Size v" and "Capacity v < n"
    and "alloc_ok T (wrap (n * sizeof_T T))" and "wrap (n * sizeof_T T) < sizeof_T T"
  shows "Allocate T n = Some [] \<and> Reserve T n v = Undefined"
proof -
  from assms(3) have n: "n \<noteq> 0" "\<not> n \<le> capacity_m (data_m v)" by (simp_all add: Capacity_def)
  from assms(5) have "wrap (n * sizeof_T T) div sizeof_T T = 0" by simp
  with n assms(4) have al: "Allocate T n = Some []"
    by (simp add: Allocate_def operator_new_def)
  from assms(2) obtain m where m: "size_m v = Suc m"
    by (auto simp: Size_def gr0_conv_Suc)
  have "Reserve T n v = Undefined"
    using n al m by (simp add: Reserve_def RawMemory_sized_def transfer_dispatch_n)
  with al show ?thesis by simp
qed

theorem Reserve_wrapped_request_witness:
  "valid (vec [1, 2::int] 2) \<and> 0 < Size (vec [1, 2::int] 2)
   \<and> Capacity (vec [1, 2::int] 2) < 2 ^ 62
   \<and> alloc_ok T_int (wrap (2 ^ 62 * sizeof_T T_int))
   \<and> wrap (2 ^ 62 * sizeof_T T_int) < sizeof_T T_int
   \<and> Allocate T_int (2 ^ 62) = Some [] \<and> Reserve T_int (2 ^ 62) (vec [1, 2] 2) = Undefined"
proof -
  have a: "valid (vec [1, 2::int] 2)" "0 < Size (vec [1, 2::int] 2)"
    "Capacity (vec [1, 2::int] 2) < 2 ^ 62"
    by (simp_all add: valid_def Size_def Capacity_def vec_def PTRDIFF_MAX_def)
  have b: "alloc_ok T_int (wrap (2 ^ 62 * sizeof_T T_int))"
    "wrap (2 ^ 62 * sizeof_T T_int) < sizeof_T T_int"
    by (simp_all add: T_int_def wrap_def SIZE_WIDTH_def)
  from a b Reserve_wrapped_request [OF a b] show ?thesis by simp
qed

subsection \<open>Appending and inserting\<close>

lemma grown_capacity_valid:
  "c \<le> PTRDIFF_MAX \<Longrightarrow> grown_capacity c = max 1 (2 * c)"
  by (auto simp: grown_capacity_def PTRDIFF_MAX_def wrap_id)

lemma elements_append:
  assumes "size_m v' = Suc (size_m v)" and "size_m v \<le> length (buffer_m (data_m v))"
    and "size_m v < length (buffer_m (data_m v'))"
    and "\<forall>i<size_m v. buffer_m (data_m v') ! i = buffer_m (data_m v) ! i"
    and "buffer_m (data_m v') ! size_m v = s"
  shows "elements v' = elements v @ [s]"
  using assms by (auto simp: elements_def nth_append less_Suc_eq intro!: nth_equalityI)

lemma append_one_ok:
  assumes v: "valid v" and c: "construct T a = Some x"
    and g: "size_m v < capacity_m (data_m v)
            \<or> Allocate T (max 1 (2 * capacity_m (data_m v)))
                = Some (replicate (max 1 (2 * capacity_m (data_m v))) None)
              \<and> transferable T v"
  shows "\<exists>v'. append_one T a v = Done v' () \<and> size_m v' = Suc (size_m v)
           \<and> elements v' = elements v @ [Some x]
           \<and> (capacity_m (data_m v') \<le> PTRDIFF_MAX \<longrightarrow> valid v')
           \<and> capacity_m (data_m v') =
               (if size_m v < capacity_m (data_m v) then capacity_m (data_m v)
                else max 1 (2 * capacity_m (data_m v)))"
proof (cases "size_m v < capacity_m (data_m v)")
  case True
  let ?b = "buffer_m (data_m v)"
  from v have len: "length ?b = capacity_m (data_m v)" and le: "size_m v \<le> capacity_m (data_m v)"
    and live: "\<forall>i<size_m v. ?b ! i \<noteq> None" and cap: "capacity_m (data_m v) \<le> PTRDIFF_MAX"
    by (simp_all add: valid_iff)
  have w: "wrap (size_m v + 1) = Suc (size_m v)"
    using True cap by (simp add: wrap_id PTRDIFF_MAX_def)
  let ?v' = "(set_buffer v (?b[size_m v := Some x]))\<lparr>size_m := Suc (size_m v)\<rparr>"
  have run: "append_one T a v = Done ?v' ()"
    using True c len w by (simp add: append_one_def RawMemory_plus_def construct_at_def)
  have val: "valid ?v'"
    using True len cap live by (auto simp: valid_iff set_buffer_def nth_list_update)
  have el: "elements ?v' = elements v @ [Some x]"
    using True len by (intro elements_append) (simp_all add: set_buffer_def)
  from run val el True show ?thesis
    by (intro exI [of _ ?v']) (simp add: set_buffer_def)
next
  case False
  let ?b = "buffer_m (data_m v)"
  let ?c = "capacity_m (data_m v)"
  let ?g = "max 1 (2 * ?c)"
  from v have len: "length ?b = ?c" and le: "size_m v \<le> ?c"
    and live: "\<forall>i<size_m v. ?b ! i \<noteq> None" and cap: "?c \<le> PTRDIFF_MAX"
    by (simp_all add: valid_iff)
  from False le have full: "size_m v = ?c" by simp
  from cap have gc: "grown_capacity ?c = ?g" by (rule grown_capacity_valid)
  from False g have al: "Allocate T ?g = Some (replicate ?g None)" and t: "transferable T v"
    by auto
  have w: "wrap (size_m v + 1) = Suc (size_m v)"
    using le cap by (simp add: wrap_id PTRDIFF_MAX_def)
  have lt: "size_m v < ?g" using full by (simp add: max_def)
  let ?nb0 = "(replicate ?g (None :: 'a option))[size_m v := Some x]"
  have fit: "size_m v \<le> length ?nb0" using lt by simp
  from whole_transfer [OF v fit t refl]
  obtain ob nb ob' where
    r: "uninitialized_transfer T (use_move T) 0 0 0 (size_m v) ?b ?nb0 = Ok (ob, nb)"
    and d: "destroy_n ob 0 (size_m v) = Some ob'" and l: "length nb = ?g"
    and cnt: "\<forall>j<?g. nb ! j = (if j < size_m v then ?b ! j else ?nb0 ! j)"
    by auto
  let ?v' = "v\<lparr>data_m := \<lparr>buffer_m = nb, capacity_m = ?g\<rparr>, size_m := Suc (size_m v)\<rparr>"
  have run: "append_one T a v = Done ?v' ()"
    using False gc al c lt r d w
    by (simp add: append_one_def RawMemory_sized_def RawMemory_plus_def construct_at_def
        transfer_dispatch_n RawMemory_Swap_def)
  have same: "\<forall>i<size_m v. nb ! i = ?b ! i"
    using cnt lt by auto
  have new: "nb ! size_m v = Some x"
    using cnt lt by simp
  have val: "?g \<le> PTRDIFF_MAX \<longrightarrow> valid ?v'"
    using l lt live same new by (auto simp: valid_iff less_Suc_eq simp del: max_def)
  have el: "elements ?v' = elements v @ [Some x]"
    using same new l lt len le by (intro elements_append) simp_all
  from run val el False show ?thesis
    by (intro exI [of _ ?v']) simp
qed

lemma construct_nothrow: "nothrow T \<Longrightarrow> construct T a = Some (arg_value a)"
  by (cases a) (simp_all add: nothrow_def)

lemma valid_default: "valid Vector_default"
  by (simp add: valid_iff Vector_default_def RawMemory_default_def)

lemma elements_default: "elements Vector_default = []"
  by (simp add: elements_def Vector_default_def)

lemma length_elements: "valid v \<Longrightarrow> length (elements v) = size_m v"
  by (simp add: elements_def valid_iff)

lemma grants_all_Allocate:
  assumes "grants_all T" and "0 < sizeof_T T" and "n * sizeof_T T \<le> PTRDIFF_MAX"
  shows "Allocate T n = Some (replicate n None)"
proof -
  from assms(3) have b: "n * sizeof_T T < 2 ^ 64" by (simp add: PTRDIFF_MAX_def)
  then have "wrap (n * sizeof_T T) = n * sizeof_T T" by (rule wrap_id)
  with assms(1,3) have "Allocate T n \<noteq> None"
    by (simp add: Allocate_def operator_new_def grants_all_def)
  with assms(2) b show ?thesis by (rule Allocate_room)
qed

lemma PushBack_all_ok:
  assumes "valid v" and "nothrow T" and "grants_all T" and "0 < sizeof_T T"
    and "(size_m v + length as) * sizeof_T T \<le> 2 ^ 62"
  shows "\<exists>v'. PushBack_all T as v = Done v' () \<and> valid v'
           \<and> elements v' = elements v @ map (\<lambda>a. Some (arg_value a)) as"
  using assms
proof (induction as arbitrary: v)
  case Nil
  then show ?case by simp
next
  case (Cons a as)
  let ?c = "capacity_m (data_m v)"
  have c: "construct T a = Some (arg_value a)"
    using Cons.prems(2) by (rule construct_nothrow)
  let ?g = "max 1 (2 * ?c)"
  from Cons.prems(1) have le: "size_m v \<le> ?c" and cap: "?c \<le> PTRDIFF_MAX"
    by (simp_all add: valid_iff)
  have bytes: "size_m v < ?c \<or> ?g * sizeof_T T \<le> PTRDIFF_MAX"
  proof (cases "size_m v < ?c")
    case True
    then show ?thesis by simp
  next
    case False
    with le have full: "?c = size_m v" by simp
    define k where "k = size_m v * sizeof_T T"
    have "(size_m v + 1) * sizeof_T T \<le> (size_m v + length (a # as)) * sizeof_T T"
      by (intro mult_le_mono1) simp
    from this Cons.prems(5) have "(size_m v + 1) * sizeof_T T \<le> 2 ^ 62" by (rule le_trans)
    then have ksz: "k + sizeof_T T \<le> 2 ^ 62" by (simp add: k_def)
    show ?thesis
    proof (cases "?c = 0")
      case True
      with ksz show ?thesis by (simp add: PTRDIFF_MAX_def)
    next
      case False
      then have "?g * sizeof_T T = 2 * k" using full by (simp add: k_def max_def)
      with ksz Cons.prems(4) show ?thesis by (simp add: PTRDIFF_MAX_def)
    qed
  qed
  have g: "size_m v < ?c \<or> Allocate T ?g = Some (replicate ?g None) \<and> transferable T v"
    using bytes Cons.prems(2,3,4) by (auto simp: grants_all_Allocate nothrow_transferable)
  from append_one_ok [OF Cons.prems(1) c g]
  obtain v1 where r: "append_one T a v = Done v1 ()" and s: "size_m v1 = Suc (size_m v)"
    and e: "elements v1 = elements v @ [Some (arg_value a)]"
    and v1': "capacity_m (data_m v1) \<le> PTRDIFF_MAX \<longrightarrow> valid v1"
    and c1: "capacity_m (data_m v1) = (if size_m v < ?c then ?c else ?g)"
    by auto
  have "capacity_m (data_m v1) \<le> PTRDIFF_MAX"
  proof (cases "size_m v < ?c")
    case True
    with c1 cap show ?thesis by simp
  next
    case False
    with bytes have b: "?g * sizeof_T T \<le> PTRDIFF_MAX" by simp
    have "?g * 1 \<le> ?g * sizeof_T T"
      using Cons.prems(4) by (intro mult_le_mono2) simp
    then have "?g \<le> ?g * sizeof_T T" by (simp only: mult_1_right)
    from this b have "?g \<le> PTRDIFF_MAX" by (rule le_trans)
    with c1 False show ?thesis by (simp del: max_def)
  qed
  with v1' have v1: "valid v1" by simp
  from s Cons.prems(5) have "(size_m v1 + length as) * sizeof_T T \<le> 2 ^ 62" by simp
  from Cons.IH [OF v1 Cons.prems(2) Cons.prems(3) Cons.prems(4) this]
  obtain v' where "PushBack_all T as v1 = Done v' ()" and "valid v'"
    and "elements v' = elements v1 @ map (\<lambda>a. Some (arg_value a)) as"
    by auto
  with r e show ?case by (simp add: PushBack_def)
qed

lemma transfer_dispatch_range:
  "first \<le> lst \<Longrightarrow>
   (if use_move T then uninitialized_move T src first lst dst d_first
    else uninitialized_copy T src first lst dst d_first)
   = uninitialized_transfer T (use_move T) first d_first 0 (lst - first) src dst"
  by (simp add: uninitialized_move_def uninitialized_copy_def uninitialized_move_n_def
      uninitialized_copy_n_def)

lemma elements_insert:
  assumes s: "size_m v' = Suc (size_m v)" and p: "pos \<le> size_m v"
    and l: "size_m v \<le> length (buffer_m (data_m v))"
    and l': "size_m v < length (buffer_m (data_m v'))"
    and before: "\<forall>i<pos. buffer_m (data_m v') ! i = buffer_m (data_m v) ! i"
    and at: "buffer_m (data_m v') ! pos = s"
    and after: "\<forall>i. pos < i \<and> i \<le> size_m v \<longrightarrow> buffer_m (data_m v') ! i = buffer_m (data_m v) ! (i - 1)"
  shows "elements v' = take pos (elements v) @ [s] @ drop pos (elements v)"
proof (rule nth_equalityI)
  show "length (elements v') = length (take pos (elements v) @ [s] @ drop pos (elements v))"
    using s p l l' by (simp add: elements_def)
next
  fix i assume "i < length (elements v')"
  with s l' have i: "i < Suc (size_m v)" by (simp add: elements_def)
  consider "i < pos" | "i = pos" | "pos < i"
    by arith
  then show "elements v' ! i = (take pos (elements v) @ [s] @ drop pos (elements v)) ! i"
  proof cases
    case 1
    with i p l s before show ?thesis
      by (simp add: elements_def nth_append)
  next
    case 2
    with i p l s at show ?thesis
      by (simp add: elements_def nth_append)
  next
    case 3
    then have "i - pos = Suc (i - Suc pos)" by arith
    moreover have "pos + (i - Suc pos) = i - 1" using 3 by arith
    ultimately show ?thesis
      using 3 i p l s after by (simp add: elements_def nth_append)
  qed
qed

lemma Emplace_grow_ok:
  assumes v: "valid v" and full: "size_m v = capacity_m (data_m v)" and p: "pos \<le> size_m v"
    and c: "construct T a = Some x"
    and alloc: "Allocate T (max 1 (2 * capacity_m (data_m v)))
                = Some (replicate (max 1 (2 * capacity_m (data_m v))) None)"
    and t: "transferable T v"
  shows "\<exists>v'. Emplace T pos a v = Done v' pos \<and> size_m v' = Suc (size_m v)
           \<and> capacity_m (data_m v') = max 1 (2 * capacity_m (data_m v))
           \<and> elements v' = take pos (elements v) @ [Some x] @ drop pos (elements v)
           \<and> (capacity_m (data_m v') \<le> PTRDIFF_MAX \<longrightarrow> valid v')"
proof -
  let ?b = "buffer_m (data_m v)"
  let ?c = "capacity_m (data_m v)"
  let ?n = "size_m v"
  let ?g = "max 1 (2 * ?c)"
  let ?mv = "use_move T"
  from v have len: "length ?b = ?c" and live: "\<forall>i<?n. ?b ! i \<noteq> None" and cap: "?c \<le> PTRDIFF_MAX"
    by (simp_all add: valid_iff)
  have req: "(if ?c \<noteq> 0 then wrap (?c * 2) else 1) = ?g"
    using grown_capacity_valid [OF cap] by (auto simp: grown_capacity_def split: if_splits)
  have w: "wrap (?n + 1) = Suc ?n"
    using full cap by (simp add: wrap_id PTRDIFF_MAX_def)
  have lt: "?n < ?g" using full by (simp add: max_def)
  let ?nb0 = "(replicate ?g (None :: 'a option))[pos := Some x]"
  have nb0: "construct_at (replicate ?g None) pos x = Some ?nb0"
    using p lt by (simp add: construct_at_def)
  have safe: "\<And>i. i < ?n \<Longrightarrow> \<exists>y. ?b ! i = Some y \<and> \<not> ctor_throws T ?mv y"
    using live transferable_nth [OF t] len full by (metis not_None_eq order_refl)
  show ?thesis
  proof (cases "0 < ?n")
    case False
    with p have z: "?n = 0" "pos = 0" by simp_all
    with full have g1: "?g = 1" by simp
    let ?v' = "v\<lparr>data_m := \<lparr>buffer_m = ?nb0, capacity_m = ?g\<rparr>, size_m := Suc ?n\<rparr>"
    have run: "Emplace T pos a v = Done ?v' pos"
      using z full req alloc c nb0 w
      by (simp add: Emplace_def RawMemory_sized_def RawMemory_Swap_def RawMemory_index_def
          del: max_def)
    have val: "?g \<le> PTRDIFF_MAX \<longrightarrow> valid ?v'"
      using z g1 by (simp add: valid_iff PTRDIFF_MAX_def)
    have el: "elements ?v' = take pos (elements v) @ [Some x] @ drop pos (elements v)"
      using z g1 by (simp add: elements_def)
    from run val el show ?thesis
      by (intro exI [of _ ?v']) simp
  next
    case True
    have pre1: "\<forall>i. 0 + 0 \<le> i \<and> i < 0 + 0 + pos \<longrightarrow> (\<exists>y. ?b ! i = Some y \<and> \<not> ctor_throws T ?mv y)"
      using safe p by auto
    from transfer_ok [of 0 0 pos ?b 0 ?nb0 T ?mv] pre1 p len full lt
    obtain ob1 nb1 where
      r1: "uninitialized_transfer T ?mv 0 0 0 pos ?b ?nb0 = Ok (ob1, nb1)"
      and lo1: "length ob1 = length ?b" and ln1: "length nb1 = ?g"
      and d1: "\<forall>j<?g. nb1 ! j = (if j < pos then ?b ! j else ?nb0 ! j)"
      and s1: "\<forall>i<length ?b. (ob1 ! i \<noteq> None) = (?b ! i \<noteq> None)"
      and k1: "\<forall>i<length ?b. pos \<le> i \<longrightarrow> ob1 ! i = ?b ! i"
      by auto
    have pre2: "\<forall>i. pos + 0 \<le> i \<and> i < pos + 0 + (?n - pos) \<longrightarrow>
        (\<exists>y. ob1 ! i = Some y \<and> \<not> ctor_throws T ?mv y)"
      using safe k1 len full p by auto
    from transfer_ok [of pos 0 "?n - pos" ob1 "Suc pos" nb1 T ?mv] pre2 p lo1 ln1 len full lt
    obtain ob2 nb2 where
      r2: "uninitialized_transfer T ?mv pos (Suc pos) 0 (?n - pos) ob1 nb1 = Ok (ob2, nb2)"
      and lo2: "length ob2 = length ?b" and ln2: "length nb2 = ?g"
      and d2: "\<forall>j<?g. nb2 ! j =
          (if Suc pos \<le> j \<and> j < Suc pos + (?n - pos) then ob1 ! (pos + (j - Suc pos)) else nb1 ! j)"
      and s2: "\<forall>i<length ?b. (ob2 ! i \<noteq> None) = (ob1 ! i \<noteq> None)"
      by auto
    have "\<exists>ob3. destroy_n ob2 0 ?n = Some ob3"
      using lo2 len full live s1 s2 by (intro destroy_n_ok) auto
    then obtain ob3 where d3: "destroy_n ob2 0 ?n = Some ob3" ..
    let ?v' = "v\<lparr>data_m := \<lparr>buffer_m = nb2, capacity_m = ?g\<rparr>, size_m := Suc ?n\<rparr>"
    have run: "Emplace T pos a v = Done ?v' pos"
      using True full req alloc c nb0 w p lt r1 r2 d3
      by (simp add: Emplace_def RawMemory_sized_def RawMemory_Swap_def RawMemory_index_def
          begin_pos_def end_pos_def transfer_dispatch_range del: max_def)
    have before: "\<forall>i<pos. nb2 ! i = ?b ! i"
      using d1 d2 p lt by auto
    have at: "nb2 ! pos = Some x"
      using d1 d2 p lt by auto
    have after: "\<forall>i. pos < i \<and> i \<le> ?n \<longrightarrow> nb2 ! i = ?b ! (i - 1)"
    proof (intro allI impI)
      fix i assume i: "pos < i \<and> i \<le> ?n"
      then have e: "pos + (i - Suc pos) = i - 1" by arith
      from i lt have "nb2 ! i = ob1 ! (pos + (i - Suc pos))"
        using d2 by auto
      also have "\<dots> = ?b ! (i - 1)"
        using e i k1 len full by auto
      finally show "nb2 ! i = ?b ! (i - 1)" .
    qed
    have livenew: "\<forall>i<Suc ?n. nb2 ! i \<noteq> None"
    proof (intro allI impI)
      fix i assume i: "i < Suc ?n"
      consider "i < pos" | "i = pos" | "pos < i" by arith
      then show "nb2 ! i \<noteq> None"
      proof cases
        case 1 with before live p show ?thesis by simp
      next
        case 2 with at show ?thesis by simp
      next
        case 3
        with i after have "nb2 ! i = ?b ! (i - 1)" by simp
        moreover from 3 i have "i - 1 < ?n" by arith
        ultimately show ?thesis using live by simp
      qed
    qed
    have val: "?g \<le> PTRDIFF_MAX \<longrightarrow> valid ?v'"
      using ln2 lt livenew by (simp add: valid_iff del: max_def)
    have el: "elements ?v' = take pos (elements v) @ [Some x] @ drop pos (elements v)"
      using p len full ln2 lt before at after by (intro elements_insert) simp_all
    from run val el show ?thesis
      by (intro exI [of _ ?v']) simp
  qed
qed

subsection \<open>A run of \<^verbatim>\<open>PushBack\<close> calls\<close>

text \<open>
  C4. Let no operation of the element type throw, let an object take at least one byte
  and at most \<open>2 ^ 60\<close>, and let the allocator grant every request of up to
  \<^verbatim>\<open>PTRDIFF_MAX\<close> bytes. Then every run of \<^verbatim>\<open>PushBack\<close> calls on an empty
  vector, for values of up to \<open>2 ^ 62\<close> bytes together (more cannot be stored: the next
  doubling would ask for more than \<^verbatim>\<open>PTRDIFF_MAX\<close> bytes), returns normally, the size
  is the number of values, and \<^verbatim>\<open>operator[]\<close> yields the values in the order they were
  pushed. For three values pushed into an empty vector the size is 3, the contents are the
  three values in order, and the capacity goes from 0 to 1, to 2 and to 4.
\<close>

theorem PushBack_round_trip:
  assumes "nothrow (T :: 'a elem_ops)" and "grants_all T"
    and "0 < sizeof_T T" and "sizeof_T T \<le> 2 ^ 60" and "length as * sizeof_T T \<le> 2 ^ 62"
  shows "(\<exists>v. PushBack_all T as Vector_default = Done v () \<and> Size v = length as
            \<and> (\<forall>i<length as. subscript v i = Some (arg_value (as ! i))))
         \<and> (\<exists>v1 v2 v3. PushBack T e1 Vector_default = Done v1 () \<and> PushBack T e2 v1 = Done v2 ()
              \<and> PushBack T e3 v2 = Done v3 () \<and> Size v3 = 3
              \<and> elements v3 = [Some (arg_value e1), Some (arg_value e2), Some (arg_value e3)]
              \<and> Capacity (Vector_default :: 'a Vector) = 0 \<and> Capacity v1 = 1 \<and> Capacity v2 = 2
              \<and> Capacity v3 = 4)"
proof
  from assms(5) have "(size_m (Vector_default :: 'a Vector) + length as) * sizeof_T T \<le> 2 ^ 62"
    by (simp add: Vector_default_def)
  from PushBack_all_ok [OF valid_default assms(1) assms(2) assms(3) this]
  obtain v where r: "PushBack_all T as Vector_default = Done v ()" and v: "valid v"
    and e: "elements v = map (\<lambda>a. Some (arg_value a)) as"
    by (auto simp: elements_default)
  from e v have s: "size_m v = length as"
    using length_elements [OF v] by simp
  have "\<forall>i<length as. subscript v i = Some (arg_value (as ! i))"
    using v s e by (simp add: subscript_elements)
  with r s show "\<exists>v. PushBack_all T as Vector_default = Done v () \<and> Size v = length as
            \<and> (\<forall>i<length as. subscript v i = Some (arg_value (as ! i)))"
    by (auto simp: Size_def)
next
  let ?d = "Vector_default :: 'a Vector"
  have ok: "\<And>v. valid v \<Longrightarrow> capacity_m (data_m v) \<le> 2 \<Longrightarrow>
     size_m v < capacity_m (data_m v)
     \<or> Allocate T (max 1 (2 * capacity_m (data_m v)))
         = Some (replicate (max 1 (2 * capacity_m (data_m v))) None) \<and> transferable T v"
  proof -
    fix v :: "'a Vector" assume v: "valid v" and c: "capacity_m (data_m v) \<le> 2"
    let ?g = "max 1 (2 * capacity_m (data_m v))"
    from c have "?g \<le> 4" by simp
    then have "?g * sizeof_T T \<le> 4 * sizeof_T T" by (rule mult_le_mono1)
    also have "\<dots> \<le> 4 * 2 ^ 60" using assms(4) by (intro mult_le_mono2)
    also have "\<dots> \<le> PTRDIFF_MAX" by (simp add: PTRDIFF_MAX_def)
    finally have "Allocate T ?g = Some (replicate ?g None)"
      using assms(2,3) by (intro grants_all_Allocate)
    with assms(1) show "size_m v < capacity_m (data_m v)
     \<or> Allocate T (max 1 (2 * capacity_m (data_m v)))
         = Some (replicate (max 1 (2 * capacity_m (data_m v))) None) \<and> transferable T v"
      by (simp add: nothrow_transferable del: max_def)
  qed
  have small: "\<And>n. n \<le> 4 \<Longrightarrow> n \<le> PTRDIFF_MAX"
    by (simp add: PTRDIFF_MAX_def)
  have d0: "size_m ?d = 0" "capacity_m (data_m ?d) = 0"
    by (simp_all add: Vector_default_def RawMemory_default_def)
  from append_one_ok [OF valid_default construct_nothrow [OF assms(1)] ok [OF valid_default], of e1] d0
  obtain v1 where r1: "append_one T e1 ?d = Done v1 ()" and s1: "size_m v1 = 1"
    and el1: "elements v1 = [Some (arg_value e1)]"
    and v1': "capacity_m (data_m v1) \<le> PTRDIFF_MAX \<longrightarrow> valid v1"
    and c1: "capacity_m (data_m v1) = 1"
    by (auto simp: elements_default)
  from v1' c1 small [of 1] have v1: "valid v1" by simp
  from append_one_ok [OF v1 construct_nothrow [OF assms(1)] ok [OF v1], of e2] s1 c1 el1
  obtain v2 where r2: "append_one T e2 v1 = Done v2 ()" and s2: "size_m v2 = 2"
    and el2: "elements v2 = [Some (arg_value e1), Some (arg_value e2)]"
    and v2': "capacity_m (data_m v2) \<le> PTRDIFF_MAX \<longrightarrow> valid v2"
    and c2: "capacity_m (data_m v2) = 2"
    by auto
  from v2' c2 small [of 2] have v2: "valid v2" by simp
  from append_one_ok [OF v2 construct_nothrow [OF assms(1)] ok [OF v2], of e3] s2 c2 el2
  obtain v3 where r3: "append_one T e3 v2 = Done v3 ()" and s3: "size_m v3 = 3"
    and el3: "elements v3 = [Some (arg_value e1), Some (arg_value e2), Some (arg_value e3)]"
    and c3: "capacity_m (data_m v3) = 4"
    by auto
  from r1 r2 r3 s3 el3 c1 c2 c3 d0
  show "\<exists>v1 v2 v3. PushBack T e1 Vector_default = Done v1 () \<and> PushBack T e2 v1 = Done v2 ()
              \<and> PushBack T e3 v2 = Done v3 () \<and> Size v3 = 3
              \<and> elements v3 = [Some (arg_value e1), Some (arg_value e2), Some (arg_value e3)]
              \<and> Capacity (Vector_default :: 'a Vector) = 0 \<and> Capacity v1 = 1 \<and> Capacity v2 = 2
              \<and> Capacity v3 = 4"
    by (simp add: PushBack_def Size_def Capacity_def)
qed

theorem PushBack_round_trip_witness:
  "nothrow T_int \<and> grants_all T_int \<and> 0 < sizeof_T T_int \<and> sizeof_T T_int \<le> 2 ^ 60
   \<and> length [CopyOf 1, CopyOf 2, CopyOf (3::int)] * sizeof_T T_int \<le> 2 ^ 62
   \<and> (\<exists>v. PushBack_all T_int [CopyOf 1, CopyOf 2, CopyOf 3] Vector_default = Done v ()
         \<and> Size v = length [CopyOf 1, CopyOf 2, CopyOf (3::int)]
         \<and> (\<forall>i<length [CopyOf 1, CopyOf 2, CopyOf (3::int)].
               subscript v i = Some (arg_value ([CopyOf 1, CopyOf 2, CopyOf 3] ! i))))
   \<and> (\<exists>v1 v2 v3. PushBack T_int (CopyOf 1) Vector_default = Done v1 ()
         \<and> PushBack T_int (CopyOf 2) v1 = Done v2 () \<and> PushBack T_int (CopyOf 3) v2 = Done v3 ()
         \<and> Size v3 = 3
         \<and> elements v3 = [Some (arg_value (CopyOf 1)), Some (arg_value (CopyOf 2)),
                           Some (arg_value (CopyOf 3))]
         \<and> Capacity (Vector_default :: int Vector) = 0 \<and> Capacity v1 = 1 \<and> Capacity v2 = 2
         \<and> Capacity v3 = 4)
   \<and> PushBack_all T_int [CopyOf 1, CopyOf 2, CopyOf 3] Vector_default = Done (vec [1, 2, 3] 4) ()"
proof -
  have a: "nothrow T_int \<and> grants_all T_int \<and> 0 < sizeof_T T_int \<and> sizeof_T T_int \<le> 2 ^ 60
      \<and> length [CopyOf 1, CopyOf 2, CopyOf (3::int)] * sizeof_T T_int \<le> 2 ^ 62"
    by (simp add: nothrow_def grants_all_def T_int_def)
  have b: "PushBack_all T_int [CopyOf 1, CopyOf 2, CopyOf 3] Vector_default = Done (vec [1, 2, 3] 4) ()"
    by (simp add: PushBack_def append_one_def Vector_default_def RawMemory_default_def eval_defs)
  from a b
    PushBack_round_trip [of T_int "[CopyOf 1, CopyOf 2, CopyOf 3]" "CopyOf 1" "CopyOf 2" "CopyOf 3"]
  show ?thesis by blast
qed

subsection \<open>The capacity after growing\<close>

text \<open>
  C5. On a well-formed vector whose size equals its capacity and whose block is an
  object of at most \<^verbatim>\<open>PTRDIFF_MAX\<close> bytes, when the allocation of
  \<open>max 1 (2 * Capacity v)\<close> slots succeeds and neither the constructor of the new element
  nor the transfer constructor throws, \<^verbatim>\<open>PushBack\<close>, \<^verbatim>\<open>EmplaceBack\<close>, and
  \<^verbatim>\<open>Insert\<close> and \<^verbatim>\<open>Emplace\<close> at a position from \<^verbatim>\<open>begin()\<close> to \<^verbatim>\<open>end()\<close>, return
  normally with a capacity of exactly \<open>max 1 (2 * Capacity v)\<close>: twice the old capacity,
  or 1 when that was 0. This is the number of slots the code requests.
\<close>

theorem growth_doubles_capacity:
  assumes "valid v" and "Size v = Capacity v" and "pos \<le> Size v"
    and "Allocate T (max 1 (2 * Capacity v)) \<noteq> None"
    and "transferable T v" and "construct T a \<noteq> None" and "storage_fits T v"
  shows "grown_capacity (Capacity v) = max 1 (2 * Capacity v)
     \<and> (\<exists>v'. PushBack T a v = Done v' () \<and> Capacity v' = max 1 (2 * Capacity v))
     \<and> (\<exists>v' r. EmplaceBack T a v = Done v' r \<and> Capacity v' = max 1 (2 * Capacity v))
     \<and> (\<exists>v' r. Insert T pos a v = Done v' r \<and> Capacity v' = max 1 (2 * Capacity v))
     \<and> (\<exists>v' r. Emplace T pos a v = Done v' r \<and> Capacity v' = max 1 (2 * Capacity v))"
proof -
  let ?c = "capacity_m (data_m v)"
  from assms(1) have cap: "?c \<le> PTRDIFF_MAX" by (simp add: valid_iff)
  then have gc: "grown_capacity ?c = max 1 (2 * ?c)" by (rule grown_capacity_valid)
  from assms(6) obtain x where c: "construct T a = Some x" by auto
  from assms(2) have full: "size_m v = ?c" by (simp add: Size_def Capacity_def)
  from assms(3) have p: "pos \<le> size_m v" by (simp add: Size_def)
  let ?g = "max 1 (2 * ?c)"
  from assms(7) have sz: "0 < sizeof_T T" and one: "sizeof_T T \<le> PTRDIFF_MAX"
    and fits: "?c * sizeof_T T \<le> PTRDIFF_MAX"
    by (simp_all add: storage_fits_def)
  have "?g * sizeof_T T < 2 ^ 64"
  proof (cases "?c = 0")
    case True
    with one show ?thesis by (simp add: PTRDIFF_MAX_def)
  next
    case False
    define k where "k = ?c * sizeof_T T"
    from False have "?g * sizeof_T T = 2 * k" by (simp add: max_def k_def)
    moreover from fits have "k \<le> 2 ^ 63 - 1" by (simp add: k_def PTRDIFF_MAX_def)
    ultimately show ?thesis by simp
  qed
  moreover from assms(4) have "Allocate T ?g \<noteq> None" by (simp add: Capacity_def)
  ultimately have al: "Allocate T ?g = Some (replicate ?g None)"
    using sz by (intro Allocate_room)
  have g: "size_m v < ?c \<or> Allocate T ?g = Some (replicate ?g None) \<and> transferable T v"
    using al assms(5) by simp
  from append_one_ok [OF assms(1) c g] full
  obtain v1 where r1: "append_one T a v = Done v1 ()" and s1: "size_m v1 = Suc (size_m v)"
    and c1: "capacity_m (data_m v1) = ?g"
    by auto
  from c1 full have "size_m v < capacity_m (data_m v1)" by (simp add: max_def)
  with r1 s1 have r2: "EmplaceBack T a v = Done v1 (size_m v)"
    by (simp add: EmplaceBack_def RawMemory_index_def)
  from Emplace_grow_ok [OF assms(1) full p c al assms(5)]
  obtain v2 where r3: "Emplace T pos a v = Done v2 pos"
    and c2: "capacity_m (data_m v2) = ?g"
    by auto
  from gc r1 r2 r3 c1 c2 show ?thesis
    by (simp add: PushBack_def Insert_def Capacity_def)
qed

theorem growth_doubles_capacity_witness:
  "valid (vec [1, 2::int] 2) \<and> Size (vec [1, 2::int] 2) = Capacity (vec [1, 2::int] 2)
   \<and> 1 \<le> Size (vec [1, 2::int] 2)
   \<and> Allocate T_int (max 1 (2 * Capacity (vec [1, 2::int] 2))) \<noteq> None
   \<and> transferable T_int (vec [1, 2] 2) \<and> construct T_int (CopyOf 3) \<noteq> None
   \<and> storage_fits T_int (vec [1, 2] 2)
   \<and> grown_capacity (Capacity (vec [1, 2::int] 2)) = max 1 (2 * Capacity (vec [1, 2::int] 2))
   \<and> (\<exists>v'. PushBack T_int (CopyOf 3) (vec [1, 2] 2) = Done v' ()
         \<and> Capacity v' = max 1 (2 * Capacity (vec [1, 2::int] 2)))
   \<and> (\<exists>v' r. EmplaceBack T_int (CopyOf 3) (vec [1, 2] 2) = Done v' r
         \<and> Capacity v' = max 1 (2 * Capacity (vec [1, 2::int] 2)))
   \<and> (\<exists>v' r. Insert T_int 1 (CopyOf 3) (vec [1, 2] 2) = Done v' r
         \<and> Capacity v' = max 1 (2 * Capacity (vec [1, 2::int] 2)))
   \<and> (\<exists>v' r. Emplace T_int 1 (CopyOf 3) (vec [1, 2] 2) = Done v' r
         \<and> Capacity v' = max 1 (2 * Capacity (vec [1, 2::int] 2)))
   \<and> PushBack T_int (CopyOf 3) (vec [1, 2] 2) = Done (vec [1, 2, 3] 4) ()
   \<and> Emplace T_int 1 (CopyOf 3) (vec [1, 2] 2) = Done (vec [1, 3, 2] 4) 1
   \<and> PushBack T_int (CopyOf 3) (vec [] 0) = Done (vec [3] 1) ()"
proof -
  have a: "valid (vec [1, 2::int] 2) \<and> Size (vec [1, 2::int] 2) = Capacity (vec [1, 2::int] 2)
      \<and> 1 \<le> Size (vec [1, 2::int] 2) \<and> transferable T_int (vec [1, 2] 2)
      \<and> construct T_int (CopyOf 3) \<noteq> None"
    by (simp add: valid_def transferable_def elements_def Size_def Capacity_def eval_defs)
  have b: "Allocate T_int (max 1 (2 * Capacity (vec [1, 2::int] 2))) \<noteq> None
      \<and> storage_fits T_int (vec [1, 2] 2)"
    by (simp add: Capacity_def storage_fits_def PTRDIFF_MAX_def eval_defs)
  have c: "PushBack T_int (CopyOf 3) (vec [1, 2] 2) = Done (vec [1, 2, 3] 4) ()"
    by (simp add: PushBack_def append_one_def eval_defs)
  have d: "Emplace T_int 1 (CopyOf 3) (vec [1, 2] 2) = Done (vec [1, 3, 2] 4) 1"
    by (simp add: Emplace_def eval_defs)
  have e: "PushBack T_int (CopyOf 3) (vec [] 0) = Done (vec [3] 1) ()"
    by (simp add: PushBack_def append_one_def eval_defs)
  from a b c d e
    growth_doubles_capacity [of "vec [1, 2::int] 2" 1 T_int "CopyOf 3"]
  show ?thesis by blast
qed

subsection \<open>\<^verbatim>\<open>Erase\<close>\<close>

lemma assign_forward_numeral:
  "assign_forward T mv first d_first (numeral k) b =
     (case assign_slot T mv first d_first b of
        Ok b' \<Rightarrow> assign_forward T mv (Suc first) (Suc d_first) (pred_numeral k) b'
      | Throw b' \<Rightarrow> Throw b'
      | UB \<Rightarrow> UB)"
  by (simp add: numeral_eq_Suc)

lemma assign_backward_numeral:
  "assign_backward T mv lst d_lst (numeral k) b =
     (if 0 < lst \<and> 0 < d_lst then
        (case assign_slot T mv (lst - 1) (d_lst - 1) b of
           Ok b' \<Rightarrow> assign_backward T mv (lst - 1) (d_lst - 1) (pred_numeral k) b'
         | Throw b' \<Rightarrow> Throw b'
         | UB \<Rightarrow> UB)
      else UB)"
  by (simp add: numeral_eq_Suc)

lemma shift_left:
  assumes "d + n < length b" and "b ! d \<noteq> None"
    and "\<forall>i. d < i \<and> i \<le> d + n \<longrightarrow> (\<exists>x. b ! i = Some x \<and> \<not> assign_throws T mv x)"
  shows "\<exists>b'. assign_forward T mv (Suc d) d n b = Ok b' \<and> length b' = length b
     \<and> (\<forall>j<length b. b' ! j =
          (if d \<le> j \<and> j < d + n then b ! Suc j
           else if j = d + n \<and> 0 < n then map_option (residue T mv) (b ! j) else b ! j))"
  using assms
proof (induction n arbitrary: d b)
  case 0
  then show ?case by auto
next
  case (Suc n)
  from Suc.prems(3) obtain x where x: "b ! Suc d = Some x" and nt: "\<not> assign_throws T mv x"
    by (metis Suc_leI le_add1 lessI add_Suc_right le_imp_less_Suc less_add_Suc1 plus_1_eq_Suc)
  from Suc.prems(2) obtain y where y: "b ! d = Some y" by auto
  let ?b1 = "b[Suc d := Some (residue T mv x), d := Some x]"
  have st: "assign_slot T mv (Suc d) d b = Ok ?b1"
    using Suc.prems(1) x y nt by (simp add: assign_slot_def)
  have p1: "Suc d + n < length ?b1" using Suc.prems(1) by simp
  have p2: "?b1 ! Suc d \<noteq> None" using Suc.prems(1) by simp
  have p3: "\<forall>i. Suc d < i \<and> i \<le> Suc d + n \<longrightarrow> (\<exists>x. ?b1 ! i = Some x \<and> \<not> assign_throws T mv x)"
    using Suc.prems(3) by (auto simp: nth_list_update)
  from Suc.IH [OF p1 p2 p3]
  obtain b' where r: "assign_forward T mv (Suc (Suc d)) (Suc d) n ?b1 = Ok b'"
    and l: "length b' = length b"
    and c: "\<forall>j<length b. b' ! j =
          (if Suc d \<le> j \<and> j < Suc d + n then ?b1 ! Suc j
           else if j = Suc d + n \<and> 0 < n then map_option (residue T mv) (?b1 ! j) else ?b1 ! j)"
    by auto
  have run: "assign_forward T mv (Suc d) d (Suc n) b = Ok b'"
    using st r by simp
  have c': "\<forall>j<length b. b' ! j =
          (if d \<le> j \<and> j < d + Suc n then b ! Suc j
           else if j = d + Suc n \<and> 0 < Suc n then map_option (residue T mv) (b ! j) else b ! j)"
  proof (intro allI impI)
    fix j assume j: "j < length b"
    consider "j < d" | "j = d" | "Suc d \<le> j" "j < Suc d + n" | "j = Suc d + n" | "Suc d + n < j"
      by arith
    then show "b' ! j =
          (if d \<le> j \<and> j < d + Suc n then b ! Suc j
           else if j = d + Suc n \<and> 0 < Suc n then map_option (residue T mv) (b ! j) else b ! j)"
    proof cases
      case 1
      with c [rule_format, OF j] j show ?thesis by simp
    next
      case 2
      with c [rule_format, OF j] j x show ?thesis by simp
    next
      case 3
      with c [rule_format, OF j] j show ?thesis by simp
    next
      case 4
      with c [rule_format, OF j] j x show ?thesis by (cases "n = 0") simp_all
    next
      case 5
      with c [rule_format, OF j] j show ?thesis by simp
    qed
  qed
  from run l c' show ?case by blast
qed

lemma assign_dispatch_forward:
  "(if use_move T then std_move T b first lst d_first else std_copy T b first lst d_first)
   = (if first \<le> lst then assign_forward T (use_move T) first d_first (lst - first) b else UB)"
  by (simp add: std_move_def std_copy_def)

lemma assignable_nth:
  "assignable T mv (drop k xs) \<Longrightarrow> k \<le> i \<Longrightarrow> i < length xs \<Longrightarrow> xs ! i = Some x \<Longrightarrow>
     \<not> assign_throws T mv x"
proof -
  assume a: "assignable T mv (drop k xs)" and k: "k \<le> i" and i: "i < length xs"
    and x: "xs ! i = Some x"
  from k i have "i - k < length (drop k xs)" and "drop k xs ! (i - k) = xs ! i"
    by simp_all
  with a x show ?thesis
    by (auto simp: assignable_def list_all_length split: option.splits)
qed

lemma elements_erase:
  assumes s: "Suc (size_m v') = size_m v" and p: "pos < size_m v"
    and l: "size_m v \<le> length (buffer_m (data_m v))"
    and l': "size_m v' \<le> length (buffer_m (data_m v'))"
    and before: "\<forall>i<pos. buffer_m (data_m v') ! i = buffer_m (data_m v) ! i"
    and after: "\<forall>i. pos \<le> i \<and> i < size_m v' \<longrightarrow> buffer_m (data_m v') ! i = buffer_m (data_m v) ! Suc i"
  shows "elements v' = take pos (elements v) @ drop (Suc pos) (elements v)"
proof (rule nth_equalityI)
  show "length (elements v') = length (take pos (elements v) @ drop (Suc pos) (elements v))"
    using s p l l' by (simp add: elements_def)
next
  fix i assume "i < length (elements v')"
  with l' have i: "i < size_m v'" by (simp add: elements_def)
  show "elements v' ! i = (take pos (elements v) @ drop (Suc pos) (elements v)) ! i"
  proof (cases "i < pos")
    case True
    with i p l s before show ?thesis
      by (simp add: elements_def nth_append)
  next
    case False
    then have "Suc pos + (i - pos) = Suc i" by arith
    with False i p l s after show ?thesis
      by (simp add: elements_def nth_append)
  qed
qed

text \<open>
  C8. On a well-formed vector, for a position \<open>pos\<close> of an element, when the assignment
  that the shift uses throws on none of the elements behind \<open>pos\<close>, \<^verbatim>\<open>Erase(pos)\<close>
  returns normally, the size is one less, the elements before \<open>pos\<close> are unchanged, each
  element behind \<open>pos\<close> is one slot further to the front, in the same order, and the
  result is the position \<open>pos\<close>: the slot of the element that followed the removed one,
  which is \<^verbatim>\<open>end()\<close> when the last element was removed.
\<close>

theorem Erase_spec:
  assumes "valid v" and "pos < Size v"
    and "assignable T (use_move T) (drop (Suc pos) (elements v))"
  shows "\<exists>v'. Erase T pos v = Done v' pos \<and> Size v' = Size v - 1 \<and> Capacity v' = Capacity v
     \<and> (\<forall>i<pos. subscript v' i = subscript v i)
     \<and> (\<forall>i. pos \<le> i \<and> i < Size v - 1 \<longrightarrow> subscript v' i = subscript v (i + 1))
     \<and> elements v' = take pos (elements v) @ drop (Suc pos) (elements v)
     \<and> (pos = Size v - 1 \<longrightarrow> pos = end_pos v') \<and> valid v'"
proof -
  let ?b = "buffer_m (data_m v)"
  let ?n = "size_m v"
  let ?mv = "use_move T"
  from assms(1) have len: "length ?b = capacity_m (data_m v)" and le: "?n \<le> capacity_m (data_m v)"
    and live: "\<forall>i<?n. ?b ! i \<noteq> None" and cap: "capacity_m (data_m v) \<le> PTRDIFF_MAX"
    by (simp_all add: valid_iff)
  from assms(2) have p: "pos < ?n" by (simp add: Size_def)
  let ?k = "?n - (pos + 1)"
  have el: "length (elements v) = ?n" using len le by (simp add: elements_def)
  have src: "\<forall>i. pos < i \<and> i \<le> pos + ?k \<longrightarrow> (\<exists>x. ?b ! i = Some x \<and> \<not> assign_throws T ?mv x)"
  proof (intro allI impI)
    fix i assume i: "pos < i \<and> i \<le> pos + ?k"
    with p have i': "i < ?n" by arith
    with live obtain x where x: "?b ! i = Some x" by auto
    with i' len le have "elements v ! i = Some x" by (simp add: elements_def)
    from assignable_nth [OF assms(3) _ _ this] i i' el have "\<not> assign_throws T ?mv x" by simp
    with x show "\<exists>x. ?b ! i = Some x \<and> \<not> assign_throws T ?mv x" by simp
  qed
  have "pos + ?k < length ?b" using p len le by arith
  from shift_left [OF this _ src] live p
  obtain b' where r: "assign_forward T ?mv (Suc pos) pos ?k ?b = Ok b'"
    and l: "length b' = length ?b"
    and c: "\<forall>j<length ?b. b' ! j =
          (if pos \<le> j \<and> j < pos + ?k then ?b ! Suc j
           else if j = pos + ?k \<and> 0 < ?k then map_option (residue T ?mv) (?b ! j) else ?b ! j)"
    by auto
  have last_live: "b' ! (?n - 1) \<noteq> None"
  proof -
    from p len le have j: "?n - 1 < length ?b" by arith
    from p have e: "?n - 1 = pos + ?k" by arith
    from live p have "?b ! (?n - 1) \<noteq> None" by simp
    with c [rule_format, OF j] e show ?thesis by (cases "0 < ?k") auto
  qed
  let ?b'' = "b'[?n - 1 := None]"
  let ?v' = "(set_buffer v ?b'')\<lparr>size_m := ?n - 1\<rparr>"
  have pop: "PopBack (set_buffer v b') = Done ?v' ()"
    using p last_live l len le
    by (simp add: PopBack_def set_buffer_def destroy_at_def)
  have run: "Erase T pos v = Done ?v' pos"
    using p r pop le
    by (simp add: Erase_def assign_dispatch_forward end_pos_def RawMemory_index_def set_buffer_def)
  have before: "\<forall>i<pos. ?b'' ! i = ?b ! i"
    using c p len le by auto
  have after: "\<forall>i. pos \<le> i \<and> i < ?n - 1 \<longrightarrow> ?b'' ! i = ?b ! Suc i"
  proof (intro allI impI)
    fix i assume i: "pos \<le> i \<and> i < ?n - 1"
    with len le have j: "i < length ?b" by arith
    from i have "i < pos + ?k" by arith
    with c [rule_format, OF j] i show "?b'' ! i = ?b ! Suc i" by simp
  qed
  have val: "valid ?v'"
  proof -
    have "\<forall>i<?n - 1. ?b'' ! i \<noteq> None"
    proof (intro allI impI)
      fix i assume i: "i < ?n - 1"
      show "?b'' ! i \<noteq> None"
      proof (cases "i < pos")
        case True
        with before live p show ?thesis by simp
      next
        case False
        with after i have "?b'' ! i = ?b ! Suc i" by simp
        moreover from i have "Suc i < ?n" by arith
        ultimately show ?thesis using live by simp
      qed
    qed
    with l len le cap show ?thesis by (simp add: valid_iff set_buffer_def)
  qed
  have els: "elements ?v' = take pos (elements v) @ drop (Suc pos) (elements v)"
    using p l len le before after
    by (intro elements_erase) (simp_all add: set_buffer_def)
  have sub1: "\<forall>i<pos. subscript ?v' i = subscript v i"
    using before p l len le by (auto simp: subscript_def set_buffer_def)
  have sub2: "\<forall>i. pos \<le> i \<and> i < Size v - 1 \<longrightarrow> subscript ?v' i = subscript v (i + 1)"
    using after p l len le by (auto simp: subscript_def set_buffer_def Size_def)
  from run val els sub1 sub2 show ?thesis
    by (intro exI [of _ ?v']) (simp add: Size_def Capacity_def set_buffer_def end_pos_def)
qed

theorem Erase_spec_witness:
  "valid (vec [1, 2, 3::int] 4) \<and> 0 < Size (vec [1, 2, 3::int] 4)
   \<and> assignable T_int (use_move T_int) (drop (Suc 0) (elements (vec [1, 2, 3] 4)))
   \<and> (\<exists>v'. Erase T_int 0 (vec [1, 2, 3] 4) = Done v' 0 \<and> Size v' = Size (vec [1, 2, 3::int] 4) - 1
         \<and> Capacity v' = Capacity (vec [1, 2, 3::int] 4)
         \<and> (\<forall>i<0. subscript v' i = subscript (vec [1, 2, 3] 4) i)
         \<and> (\<forall>i. 0 \<le> i \<and> i < Size (vec [1, 2, 3::int] 4) - 1 \<longrightarrow>
               subscript v' i = subscript (vec [1, 2, 3] 4) (i + 1))
         \<and> elements v' = take 0 (elements (vec [1, 2, 3] 4)) @ drop (Suc 0) (elements (vec [1, 2, 3] 4))
         \<and> (0 = Size (vec [1, 2, 3::int] 4) - 1 \<longrightarrow> 0 = end_pos v') \<and> valid v')
   \<and> Erase T_int 0 (vec [1, 2, 3] 4) = Done (vec [2, 3] 4) 0
   \<and> Erase T_int 2 (vec [1, 2, 3] 4) = Done (vec [1, 2] 4) 2"
proof -
  have a: "valid (vec [1, 2, 3::int] 4) \<and> 0 < Size (vec [1, 2, 3::int] 4)
     \<and> assignable T_int (use_move T_int) (drop (Suc 0) (elements (vec [1, 2, 3] 4)))"
    by (simp add: valid_def assignable_def elements_def Size_def eval_defs)
  have b: "Erase T_int 0 (vec [1, 2, 3] 4) = Done (vec [2, 3] 4) 0"
    by (simp add: Erase_def PopBack_def std_move_def assign_slot_def assign_forward_numeral eval_defs)
  have c: "Erase T_int 2 (vec [1, 2, 3] 4) = Done (vec [1, 2] 4) 2"
    by (simp add: Erase_def PopBack_def std_move_def assign_slot_def assign_forward_numeral eval_defs)
  from a b c Erase_spec [of "vec [1, 2, 3::int] 4" 0 T_int]
  show ?thesis by blast
qed

subsection \<open>The size never exceeds the capacity\<close>

text \<open>
  The lemmas of this section hold for every outcome that leaves a state: a normal return
  and an exception alike. They hold whatever block \<^verbatim>\<open>Allocate\<close> returns: a block that
  is too small for the capacity recorded with it ends every operation that would put an
  object behind its end before the size can grow.
\<close>

lemma grows_refl: "grows b b"
  by (simp add: grows_def)

lemma grows_trans: "grows a b \<Longrightarrow> grows b c \<Longrightarrow> grows a c"
  by (simp add: grows_def)

lemma grows_update: "grows b (b[i := Some x])"
  by (cases "i < length b") (auto simp: grows_def nth_list_update)

lemma grows_update2: "grows b (b[i := Some x, j := Some y])"
  by (rule grows_trans [OF grows_update grows_update])


lemma transfer_Ok:
  "uninitialized_transfer T mv first d_first k n src dst = Ok (src', dst') \<Longrightarrow>
     length src' = length src \<and> length dst' = length dst
     \<and> (0 < n \<longrightarrow> d_first + k + n \<le> length dst \<and> first + k + n \<le> length src)
     \<and> (\<forall>j<length dst. if d_first + k \<le> j \<and> j < d_first + k + n then dst' ! j \<noteq> None
                         else dst' ! j = dst ! j)
     \<and> grows src src'"
proof (induction n arbitrary: k src dst)
  case 0
  then show ?case by (auto simp: grows_refl)
next
  case (Suc n)
  from Suc.prems have b: "first + k < length src" "d_first + k < length dst"
    by (auto split: if_splits)
  with Suc.prems obtain x where x: "src ! (first + k) = Some x" and nt: "\<not> ctor_throws T mv x"
    by (auto split: option.splits if_splits)
  let ?src = "src[first + k := Some (residue T mv x)]"
  let ?dst = "dst[d_first + k := Some x]"
  from Suc.prems b x nt
  have r: "uninitialized_transfer T mv first d_first (Suc k) n ?src ?dst = Ok (src', dst')"
    by simp
  from Suc.IH [OF r] have l1: "length src' = length src" and l2: "length dst' = length dst"
    and bd: "0 < n \<longrightarrow> d_first + Suc k + n \<le> length dst \<and> first + Suc k + n \<le> length src"
    and sl: "\<forall>j<length dst. if d_first + Suc k \<le> j \<and> j < d_first + Suc k + n then dst' ! j \<noteq> None
                         else dst' ! j = ?dst ! j"
    and g: "grows ?src src'"
    by simp_all
  have bd': "d_first + k + Suc n \<le> length dst \<and> first + k + Suc n \<le> length src"
    using bd b by (cases "0 < n") auto
  have sl': "\<forall>j<length dst. if d_first + k \<le> j \<and> j < d_first + k + Suc n then dst' ! j \<noteq> None
                         else dst' ! j = dst ! j"
  proof (intro allI impI)
    fix j assume j: "j < length dst"
    show "if d_first + k \<le> j \<and> j < d_first + k + Suc n then dst' ! j \<noteq> None
          else dst' ! j = dst ! j"
      using sl [rule_format, OF j] j by (cases "j = d_first + k") (auto split: if_splits)
  qed
  have "grows src ?src" by (rule grows_update)
  with g have "grows src src'" by (rule grows_trans [rotated])
  with l1 l2 bd' sl' show ?case by simp
qed


lemma valid_resized:
  "valid v \<Longrightarrow> length b' = length (buffer_m (data_m v)) \<Longrightarrow> s \<le> capacity_m (data_m v) \<Longrightarrow>
   (\<forall>i<s. b' ! i \<noteq> None) \<Longrightarrow> valid ((set_buffer v b')\<lparr>size_m := s\<rparr>)"
  by (simp add: valid_iff set_buffer_def)


lemma wrap_Suc_valid: "valid v \<Longrightarrow> wrap (size_m v + 1) = Suc (size_m v)"
  by (simp add: valid_iff wrap_id PTRDIFF_MAX_def)


lemma Vector_Swap_eq: "Vector_Swap v other = (other, v)"
  by (simp add: Vector_Swap_def RawMemory_Swap_def)

lemma assign_dispatch_backward:
  "(if use_move T then move_backward T b first lst d_lst else copy_backward T b first lst d_lst)
   = (if first \<le> lst then assign_backward T (use_move T) lst d_lst (lst - first) b else UB)"
  by (simp add: move_backward_def copy_backward_def)

lemma transfer_dispatch_range':
  "(if use_move T then uninitialized_move T src first lst dst d_first
    else uninitialized_copy T src first lst dst d_first)
   = (if first \<le> lst then uninitialized_transfer T (use_move T) first d_first 0 (lst - first) src dst
      else UB)"
  by (simp add: uninitialized_move_def uninitialized_copy_def uninitialized_move_n_def
      uninitialized_copy_n_def)

lemma Emplace_in_place:
  assumes "size_m v < capacity_m (data_m v)" and "0 < size_m v" and "construct T a = Some x"
  shows "Emplace T pos a v =
     (case construct_from_slot T (use_move T) (size_m v - 1) (size_m v) (buffer_m (data_m v)) of
        UB \<Rightarrow> Undefined
      | Throw b1 \<Rightarrow> Raised ElementThrow (set_buffer v b1) []
      | Ok b1 \<Rightarrow>
         (case (if pos \<le> size_m v - 1
                then assign_backward T (use_move T) (size_m v - 1) (size_m v) (size_m v - 1 - pos) b1
                else UB) of
            UB \<Rightarrow> Undefined
          | Throw b2 \<Rightarrow> Raised ElementThrow (set_buffer v b2) []
          | Ok b2 \<Rightarrow>
             (if pos < capacity_m (data_m v) then
                (case assign_value T True x pos b2 of
                   UB \<Rightarrow> Undefined
                 | Throw b3 \<Rightarrow> Raised ElementThrow (set_buffer v b3) []
                 | Ok b3 \<Rightarrow> Done ((set_buffer v b3)\<lparr>size_m := wrap (size_m v + 1)\<rparr>) pos)
              else Undefined)))"
proof -
  have 1: "RawMemory_index (data_m v) (size_m v) = Some (size_m v)"
    and 2: "RawMemory_index (data_m v) (size_m v - 1) = Some (size_m v - 1)"
    using assms(1,2) by (simp_all add: RawMemory_index_def)
  show ?thesis
    unfolding Emplace_def assign_dispatch_backward begin_pos_def end_pos_def
    using assms 1 2
    by (auto simp: RawMemory_index_def split: step.splits)
qed


lemma wrap_Suc_le: "s < c \<Longrightarrow> wrap (s + 1) \<le> c"
  using wrap_le [of "s + 1"] by simp

lemma wrap_Suc_le': "s < c \<Longrightarrow> wrap (Suc s) \<le> c"
  using wrap_le [of "Suc s"] by simp

lemma RawMemory_sized_room:
  "RawMemory_sized T n = Some d \<Longrightarrow> capacity_m d = n \<and> length (buffer_m d) \<le> n"
  by (auto simp: RawMemory_sized_def split: option.splits dest: Allocate_length)

lemma Reserve_Done:
  "Reserve T n v = Done v' u \<Longrightarrow>
     size_m v' = size_m v \<and> capacity_m (data_m v') = max n (capacity_m (data_m v))"
  by (auto simp: Reserve_def RawMemory_Swap_def split: if_splits option.splits step.splits
      dest!: RawMemory_sized_room)

lemma Reserve_Raised:
  "Reserve T n v = Raised e v' l \<Longrightarrow>
     size_m v' = size_m v \<and> capacity_m (data_m v') = capacity_m (data_m v)"
  by (auto simp: Reserve_def RawMemory_Swap_def set_buffer_def
      split: if_splits option.splits step.splits)

lemma Reserve_size_le:
  assumes "size_m v \<le> capacity_m (data_m v)" and "state_after (Reserve T n v) = Some v'"
  shows "size_m v' \<le> capacity_m (data_m v')"
proof (cases "Reserve T n v")
  case (Done v1 u)
  with assms(2) have "v' = v1" by simp
  with Reserve_Done [OF Done] assms(1) show ?thesis by simp
next
  case (Raised e v1 l)
  with assms(2) have "v' = v1" by simp
  with Reserve_Raised [OF Raised] assms(1) show ?thesis by simp
next
  case Undefined
  with assms(2) show ?thesis by simp
qed

lemma Resize_rest_size_le:
  assumes "size_m v1 \<le> capacity_m (data_m v1)" and "n \<le> capacity_m (data_m v1)"
    and "state_after
       (if n > size_m v1 then
          (case uninitialized_value_construct_n T (buffer_m (data_m v1)) (size_m v1)
                  (n - size_m v1) of
             UB \<Rightarrow> Undefined
           | Throw b \<Rightarrow> Raised ElementThrow (set_buffer v1 b) []
           | Ok b \<Rightarrow> Done ((set_buffer v1 b)\<lparr>size_m := n\<rparr>) ())
        else
          (case destroy_n (buffer_m (data_m v1)) n (size_m v1 - n) of
             None \<Rightarrow> Undefined
           | Some b \<Rightarrow> Done ((set_buffer v1 b)\<lparr>size_m := n\<rparr>) ())) = Some v'"
  shows "size_m v' \<le> capacity_m (data_m v')"
  using assms by (auto simp: set_buffer_def split: if_splits step.splits option.splits)

lemma Resize_size_le:
  assumes "size_m (v :: 'a Vector) \<le> capacity_m (data_m v)"
    and "state_after (Resize T n v) = Some v'"
  shows "size_m v' \<le> capacity_m (data_m v')"
proof (cases "n > capacity_m (data_m v)")
  case False
  with assms(2) have e: "state_after
       (if n > size_m v then
          (case uninitialized_value_construct_n T (buffer_m (data_m v)) (size_m v)
                  (n - size_m v) of
             UB \<Rightarrow> Undefined
           | Throw b \<Rightarrow> Raised ElementThrow (set_buffer v b) ([] :: 'a list)
           | Ok b \<Rightarrow> Done ((set_buffer v b)\<lparr>size_m := n\<rparr>) ())
        else
          (case destroy_n (buffer_m (data_m v)) n (size_m v - n) of
             None \<Rightarrow> Undefined
           | Some b \<Rightarrow> Done ((set_buffer v b)\<lparr>size_m := n\<rparr>) ())) = Some v'"
    by (simp add: Resize_def split del: if_split)
  from False have "n \<le> capacity_m (data_m v)" by simp
  from assms(1) this e show ?thesis by (rule Resize_rest_size_le)
next
  case True
  show ?thesis
  proof (cases "Reserve T n v")
    case (Done v1 u)
    from Reserve_Done [OF Done] True have s: "size_m v1 = size_m v"
      and c: "capacity_m (data_m v1) = n"
      by simp_all
    from assms(2) True Done have e: "state_after
       (if n > size_m v1 then
          (case uninitialized_value_construct_n T (buffer_m (data_m v1)) (size_m v1)
                  (n - size_m v1) of
             UB \<Rightarrow> Undefined
           | Throw b \<Rightarrow> Raised ElementThrow (set_buffer v1 b) ([] :: 'a list)
           | Ok b \<Rightarrow> Done ((set_buffer v1 b)\<lparr>size_m := n\<rparr>) ())
        else
          (case destroy_n (buffer_m (data_m v1)) n (size_m v1 - n) of
             None \<Rightarrow> Undefined
           | Some b \<Rightarrow> Done ((set_buffer v1 b)\<lparr>size_m := n\<rparr>) ())) = Some v'"
      by (simp add: Resize_def split del: if_split)
    from s c assms(1) True have i: "size_m v1 \<le> capacity_m (data_m v1)" by simp
    from c have "n \<le> capacity_m (data_m v1)" by simp
    from i this e show ?thesis by (rule Resize_rest_size_le)
  next
    case (Raised e v1 l)
    with assms(2) True have "v' = v1" by (simp add: Resize_def)
    with Reserve_Raised [OF Raised] assms(1) show ?thesis by simp
  next
    case Undefined
    with assms(2) True show ?thesis by (simp add: Resize_def)
  qed
qed

lemma append_one_size_le:
  assumes "size_m v \<le> capacity_m (data_m v)" and "state_after (append_one T a v) = Some v'"
  shows "size_m v' \<le> capacity_m (data_m v')"
proof (cases "size_m v < capacity_m (data_m v)")
  case True
  with assms show ?thesis
    by (auto simp: append_one_def RawMemory_plus_def construct_at_def set_buffer_def wrap_Suc_le'
        split: option.splits if_splits)
next
  case False
  let ?g = "grown_capacity (capacity_m (data_m v))"
  show ?thesis
  proof (cases "RawMemory_sized T ?g")
    case None
    with assms False show ?thesis by (simp add: append_one_def)
  next
    case (Some new_data)
    from RawMemory_sized_room [OF Some] have c: "capacity_m new_data = ?g"
      and l: "length (buffer_m new_data) \<le> ?g"
      by simp_all
    have room: "construct_at (buffer_m new_data) (size_m v) x = Some nb0 \<Longrightarrow>
        wrap (size_m v + 1) \<le> ?g" for x nb0
      using l by (intro wrap_Suc_le) (auto simp: construct_at_def split: if_splits)
    from assms False Some c room show ?thesis
      by (auto simp: append_one_def RawMemory_plus_def set_buffer_def RawMemory_Swap_def
          split: option.splits if_splits step.splits)
  qed
qed

lemma EmplaceBack_size_le:
  assumes "size_m v \<le> capacity_m (data_m v)" and "state_after (EmplaceBack T a v) = Some v'"
  shows "size_m v' \<le> capacity_m (data_m v')"
proof -
  from assms(2) have "state_after (append_one T a v) = Some v'"
    by (auto simp: EmplaceBack_def split: outcome.splits option.splits)
  with assms(1) show ?thesis by (rule append_one_size_le)
qed

lemma PopBack_size_le:
  assumes "size_m v \<le> capacity_m (data_m v)"
    and "state_after (PopBack v :: ('a Vector, unit, 'a) outcome) = Some v'"
  shows "size_m v' \<le> capacity_m (data_m v')"
  using assms by (auto simp: PopBack_def set_buffer_def split: if_splits option.splits)

lemma Erase_size_le:
  assumes "size_m v \<le> capacity_m (data_m v)" and "state_after (Erase T pos v) = Some v'"
  shows "size_m v' \<le> capacity_m (data_m v')"
  using assms
  by (auto simp: Erase_def PopBack_def set_buffer_def
      split: if_splits option.splits step.splits outcome.splits)

lemma Emplace_in_place_size_le:
  assumes "size_m v < capacity_m (data_m v)" and "state_after (Emplace T pos a v) = Some v'"
  shows "size_m v' \<le> capacity_m (data_m v')"
proof (cases "0 < size_m v")
  case False
  with assms show ?thesis
    by (auto simp: Emplace_def set_buffer_def wrap_Suc_le' split: option.splits)
next
  case True
  show ?thesis
  proof (cases "construct T a")
    case None
    with assms True show ?thesis by (simp add: Emplace_def)
  next
    case (Some x)
    from assms(2) show ?thesis
      unfolding Emplace_in_place [OF assms(1) True Some]
      using assms(1)
      by (auto simp: set_buffer_def wrap_Suc_le' split: step.splits if_splits)
  qed
qed

lemma Emplace_growing_size_le:
  assumes inv: "size_m v \<le> capacity_m (data_m v)" and full: "\<not> size_m v < capacity_m (data_m v)"
    and r: "state_after (Emplace T pos a v) = Some v'"
  shows "size_m v' \<le> capacity_m (data_m v')"
proof -
  let ?g = "if capacity_m (data_m v) \<noteq> 0 then wrap (capacity_m (data_m v) * 2) else 1"
  let ?b = "buffer_m (data_m v)"
  let ?mv = "use_move T"
  show ?thesis
  proof (cases "RawMemory_sized T ?g")
    case None
    with r full inv show ?thesis by (simp add: Emplace_def)
  next
    case (Some new_data)
    from RawMemory_sized_room [OF Some] have c: "capacity_m new_data = ?g"
      and l: "length (buffer_m new_data) \<le> ?g"
      by simp_all
    show ?thesis
    proof (cases "construct T a")
      case None
      with r full inv Some show ?thesis by (simp add: Emplace_def)
    next
      case x: (Some x)
      show ?thesis
      proof (cases "construct_at (buffer_m new_data) pos x")
        case None
        with r full Some x show ?thesis by (simp add: Emplace_def)
      next
        case nb0: (Some nb0)
        then have p: "pos < length (buffer_m new_data)"
          and ln0: "length nb0 = length (buffer_m new_data)"
          by (auto simp: construct_at_def split: if_splits)
        show ?thesis
        proof (cases "0 < size_m v")
          case False
          with full have z: "size_m v = 0" "capacity_m (data_m v) = 0" by simp_all
          have "wrap (0 + 1) \<le> (1::nat)" by (rule wrap_Suc_le) simp
          with r Some x nb0 z c show ?thesis
            by (auto simp: Emplace_def RawMemory_Swap_def split: option.splits)
        next
          case True
          let ?t1 = "uninitialized_transfer T ?mv 0 0 0 pos ?b nb0"
          have e: "state_after
            (case ?t1 of
               UB \<Rightarrow> Undefined
             | Throw (ob1, nb1) \<Rightarrow>
                 Raised ElementThrow (set_buffer v ob1) (Deallocate (new_data\<lparr>buffer_m := nb1\<rparr>))
             | Ok (ob1, nb1) \<Rightarrow>
                (case (if pos \<le> size_m v
                       then uninitialized_transfer T ?mv pos (pos + 1) 0 (size_m v - pos) ob1 nb1
                       else UB) of
                   UB \<Rightarrow> Undefined
                 | Throw (ob2, nb2) \<Rightarrow>
                     Raised ElementThrow (set_buffer v ob2)
                       (Deallocate (new_data\<lparr>buffer_m := nb2\<rparr>))
                 | Ok (ob2, nb2) \<Rightarrow>
                    (case destroy_n ob2 0 (size_m v) of
                       None \<Rightarrow> Undefined
                     | Some ob3 \<Rightarrow>
                        (case RawMemory_Swap ((data_m v)\<lparr>buffer_m := ob3\<rparr>)
                                (new_data\<lparr>buffer_m := nb2\<rparr>) of
                           (d, released) \<Rightarrow>
                            (case RawMemory_index d pos of
                               None \<Rightarrow> Undefined
                             | Some p \<Rightarrow>
                                 Done (v\<lparr>data_m := d, size_m := wrap (size_m v + 1)\<rparr>) p))))) = Some v'"
            using r full Some x nb0 True
            unfolding Emplace_def transfer_dispatch_range' begin_pos_def end_pos_def add_0
            by simp
          show ?thesis
          proof (cases ?t1)
            case UB
            with e show ?thesis by simp
          next
            case (Throw q)
            with e inv show ?thesis by (cases q) (auto simp: set_buffer_def)
          next
            case (Ok q)
            obtain ob1 nb1 where q: "q = (ob1, nb1)" by (cases q)
            from transfer_Ok [OF Ok [unfolded q]] have ln1: "length nb1 = length nb0" by simp
            show ?thesis
            proof (cases "pos \<le> size_m v")
              case False
              with e Ok q show ?thesis by simp
            next
              case le: True
              let ?t2 = "uninitialized_transfer T ?mv pos (pos + 1) 0 (size_m v - pos) ob1 nb1"
              show ?thesis
              proof (cases ?t2)
                case UB
                with e Ok q le show ?thesis by simp
              next
                case (Throw q2)
                with e Ok q le inv show ?thesis by (cases q2) (auto simp: set_buffer_def)
              next
                case Ok2: (Ok q2)
                obtain ob2 nb2 where q2: "q2 = (ob2, nb2)" by (cases q2)
                from transfer_Ok [OF Ok2 [unfolded q2]]
                have "0 < size_m v - pos \<longrightarrow> pos + 1 + 0 + (size_m v - pos) \<le> length nb1"
                  by simp
                with le p ln0 ln1 have "size_m v < length (buffer_m new_data)"
                  by (cases "pos = size_m v") auto
                with l have "size_m v < ?g" by simp
                then have w: "wrap (size_m v + 1) \<le> ?g" by (rule wrap_Suc_le)
                from e Ok q le Ok2 q2 c w show ?thesis
                  by (auto simp: RawMemory_Swap_def split: option.splits)
              qed
            qed
          qed
        qed
      qed
    qed
  qed
qed

lemma Emplace_size_le:
  assumes "size_m v \<le> capacity_m (data_m v)" and "state_after (Emplace T pos a v) = Some v'"
  shows "size_m v' \<le> capacity_m (data_m v')"
proof (cases "size_m v < capacity_m (data_m v)")
  case True
  from this assms(2) show ?thesis by (rule Emplace_in_place_size_le)
next
  case False
  from assms(1) this assms(2) show ?thesis by (rule Emplace_growing_size_le)
qed

lemma Vector_sized_size_le:
  "Vector_sized T n = Done () v \<Longrightarrow> size_m v \<le> capacity_m (data_m v)"
  by (auto simp: Vector_sized_def split: option.splits step.splits dest!: RawMemory_sized_room)

lemma Vector_copy_size_le:
  "Vector_copy T other = Done () v \<Longrightarrow> size_m v \<le> capacity_m (data_m v)"
  by (auto simp: Vector_copy_def split: option.splits step.splits dest!: RawMemory_sized_room)

lemma copy_assign_size_le:
  assumes "size_m v \<le> capacity_m (data_m v)" and "state_after (copy_assign T v rhs) = Some v'"
  shows "size_m v' \<le> capacity_m (data_m v')"
proof (cases "capacity_m (data_m v) < size_m rhs")
  case True
  show ?thesis
  proof (cases "Vector_copy T rhs")
    case (Done u rhs_copy)
    with assms(2) True have "v' = rhs_copy"
      by (auto simp: copy_assign_def Vector_Swap_eq split: option.splits)
    with Vector_copy_size_le [of T rhs rhs_copy] Done show ?thesis by simp
  next
    case (Raised e u l)
    with assms True show ?thesis by (simp add: copy_assign_def)
  next
    case Undefined
    with assms True show ?thesis by (simp add: copy_assign_def)
  qed
next
  case False
  with assms show ?thesis
    by (auto simp: copy_assign_def set_buffer_def split: step.splits option.splits)
qed

lemma run_op_size_le:
  assumes v: "size_m v \<le> capacity_m (data_m v)" and r: "run_op T op v = Some v'"
  shows "size_m v' \<le> capacity_m (data_m v')"
proof (cases op)
  case (Op_Reserve n)
  with r have "state_after (Reserve T n v) = Some v'" by simp
  with v show ?thesis by (rule Reserve_size_le)
next
  case (Op_Resize n)
  with r have "state_after (Resize T n v) = Some v'" by simp
  with v show ?thesis by (rule Resize_size_le)
next
  case (Op_PushBack a)
  with r have "state_after (append_one T a v) = Some v'" by (simp add: PushBack_def)
  with v show ?thesis by (rule append_one_size_le)
next
  case Op_PopBack
  with r have "state_after (PopBack v :: ('a Vector, unit, 'a) outcome) = Some v'" by simp
  with v show ?thesis by (rule PopBack_size_le)
next
  case (Op_EmplaceBack a)
  with r have "state_after (EmplaceBack T a v) = Some v'" by simp
  with v show ?thesis by (rule EmplaceBack_size_le)
next
  case (Op_Insert pos a)
  with r have "state_after (Emplace T pos a v) = Some v'" by (simp add: Insert_def)
  with v show ?thesis by (rule Emplace_size_le)
next
  case (Op_Erase pos)
  with r have "state_after (Erase T pos v) = Some v'" by simp
  with v show ?thesis by (rule Erase_size_le)
next
  case (Op_Emplace pos a)
  with r have "state_after (Emplace T pos a v) = Some v'" by simp
  with v show ?thesis by (rule Emplace_size_le)
qed

lemma store_size_le:
  assumes "size_m v \<le> capacity_m (data_m v)" and "store index x v = Some v'"
  shows "size_m v' \<le> capacity_m (data_m v')"
  using assms by (auto simp: store_def set_buffer_def split: option.splits)

lemma reachable_size_le: "reachable T v \<Longrightarrow> size_m v \<le> capacity_m (data_m v)"
proof (induction rule: reachable.induct)
  case reach_default
  show ?case by (simp add: Vector_default_def RawMemory_default_def)
next
  case (reach_sized n v)
  then show ?case by (rule Vector_sized_size_le)
next
  case (reach_copy other v)
  from Vector_copy_size_le [OF reach_copy.hyps(2)] show ?case .
next
  case (reach_move other v other')
  then show ?case by (simp add: Vector_move_def Vector_Swap_eq)
next
  case (reach_moved_from other v other')
  then show ?case
    by (auto simp: Vector_move_def Vector_Swap_eq Vector_default_def RawMemory_default_def)
next
  case (reach_copy_assign v rhs v')
  from copy_assign_size_le [OF reach_copy_assign.IH(1) reach_copy_assign.hyps(3)] show ?case .
next
  case (reach_move_assign v other v' other')
  then show ?case by (simp add: move_assign_def Vector_Swap_eq)
next
  case (reach_move_assigned_from v other v' other')
  then show ?case by (simp add: move_assign_def Vector_Swap_eq)
next
  case (reach_op v op v')
  from run_op_size_le [OF reach_op.IH reach_op.hyps(2)] show ?case .
next
  case (reach_store v index x v')
  from store_size_le [OF reach_store.IH reach_store.hyps(2)] show ?case .
qed

text \<open>
  C9. In every reachable state of a vector, whatever the element type and the allocator
  do, \<^verbatim>\<open>Size()\<close> is at most \<^verbatim>\<open>Capacity()\<close>. This holds also in the states where
  the capacity is not the number of slots of the block: \<^verbatim>\<open>Reserve(2 ^ 63)\<close> on an empty
  vector of four-byte elements leaves a vector of size 0 and capacity \<open>2 ^ 63\<close> whose block
  has no slot.
\<close>

theorem size_le_capacity:
  "reachable T v \<Longrightarrow> Size v \<le> Capacity v"
proof -
  assume "reachable T v"
  then have "size_m v \<le> capacity_m (data_m v)" by (rule reachable_size_le)
  then show ?thesis by (simp add: Size_def Capacity_def)
qed

theorem size_le_capacity_witness:
  "reachable T_int (vec [1, 3, 2] 4) \<and> Size (vec [1, 3, 2::int] 4) \<le> Capacity (vec [1, 3, 2::int] 4)
   \<and> reachable T_int \<lparr>data_m = \<lparr>buffer_m = [], capacity_m = 2 ^ 63\<rparr>, size_m = 0\<rparr>
   \<and> Size \<lparr>data_m = \<lparr>buffer_m = ([] :: int slot list), capacity_m = 2 ^ 63\<rparr>, size_m = 0\<rparr>
       \<le> Capacity \<lparr>data_m = \<lparr>buffer_m = ([] :: int slot list), capacity_m = 2 ^ 63\<rparr>, size_m = 0\<rparr>"
proof -
  have 0: "reachable T_int (Vector_default :: int Vector)" by (rule reach_default)
  have "run_op T_int (Op_PushBack (CopyOf 1)) Vector_default = Some (vec [1] 1)"
    by (simp add: PushBack_def append_one_def Vector_default_def RawMemory_default_def eval_defs)
  with 0 have 1: "reachable T_int (vec [1] 1)" by (rule reach_op)
  have "run_op T_int (Op_PushBack (CopyOf 2)) (vec [1] 1) = Some (vec [1, 2] 2)"
    by (simp add: PushBack_def append_one_def eval_defs)
  with 1 have 2: "reachable T_int (vec [1, 2] 2)" by (rule reach_op)
  have "run_op T_int (Op_Emplace 1 (CopyOf 3)) (vec [1, 2] 2) = Some (vec [1, 3, 2] 4)"
    by (simp add: Emplace_def eval_defs)
  with 2 have 3: "reachable T_int (vec [1, 3, 2] 4)" by (rule reach_op)
  have "run_op T_int (Op_Reserve (2 ^ 63)) Vector_default
      = Some \<lparr>data_m = \<lparr>buffer_m = [], capacity_m = 2 ^ 63\<rparr>, size_m = 0\<rparr>"
    by (simp add: Reserve_def Vector_default_def RawMemory_default_def RawMemory_sized_def
        Allocate_def operator_new_def T_int_def wrap_def SIZE_WIDTH_def use_move_def
        uninitialized_move_n_def RawMemory_Swap_def)
  with 0 have 4: "reachable T_int \<lparr>data_m = \<lparr>buffer_m = [], capacity_m = 2 ^ 63\<rparr>, size_m = 0\<rparr>"
    by (rule reach_op)
  from 3 4 size_le_capacity [OF 3] size_le_capacity [OF 4] show ?thesis by blast
qed

subsection \<open>\<^verbatim>\<open>Emplace\<close> and \<^verbatim>\<open>Insert\<close>\<close>

text \<open>
  C2, at the inputs where the code departs from it. On a well-formed, non-empty vector
  with spare capacity, \<^verbatim>\<open>Emplace\<close> and \<^verbatim>\<open>Insert\<close> at \<^verbatim>\<open>end()\<close> do not insert the
  element: after moving the last element into the first free slot, the code calls
  \<^verbatim>\<open>std::move_backward(begin() + pos_number, end() - 1, end())\<close> (or
  \<^verbatim>\<open>std::copy_backward\<close>) with \<^verbatim>\<open>pos_number = size_\<close>, a range whose first position
  lies behind its last, and the behaviour is undefined.
\<close>

theorem Emplace_at_end_with_spare_capacity:
  assumes "valid v" and "0 < Size v" and "Size v < Capacity v"
    and "construct T a \<noteq> None" and "transferable T v"
  shows "Emplace T (end_pos v) a v = Undefined \<and> Insert T (end_pos v) a v = Undefined"
proof -
  let ?b = "buffer_m (data_m v)"
  let ?n = "size_m v"
  from assms(1) have len: "length ?b = capacity_m (data_m v)" and le: "?n \<le> capacity_m (data_m v)"
    and live: "\<forall>i<?n. ?b ! i \<noteq> None"
    by (simp_all add: valid_iff)
  from assms(2,3) have n: "0 < ?n" "?n < capacity_m (data_m v)"
    by (simp_all add: Size_def Capacity_def)
  from assms(4) obtain x where x: "construct T a = Some x" by auto
  from n have "?n - 1 < ?n" by simp
  with live have "?b ! (?n - 1) \<noteq> None" by blast
  then obtain y where y: "?b ! (?n - 1) = Some y" by auto
  from transferable_nth [OF assms(5) _ _ y] n len have nt: "\<not> ctor_throws T (use_move T) y"
    by simp
  have c: "construct_from_slot T (use_move T) (?n - 1) ?n ?b
             = Ok (?b[?n - 1 := Some (residue T (use_move T) y), ?n := Some y])"
    using n len y nt by (simp add: construct_from_slot_def)
  have range: "\<not> ?n \<le> ?n - 1" using n by arith
  have "Emplace T ?n a v = Undefined"
    by (simp only: Emplace_in_place [OF n(2) n(1) x] c range step.case if_False)
  then show ?thesis by (simp add: Insert_def end_pos_def)
qed

theorem Emplace_at_end_witness:
  "valid (vec [1::int] 2) \<and> 0 < Size (vec [1::int] 2) \<and> Size (vec [1::int] 2) < Capacity (vec [1::int] 2)
   \<and> construct T_int (CopyOf 2) \<noteq> None \<and> transferable T_int (vec [1] 2)
   \<and> Emplace T_int (end_pos (vec [1::int] 2)) (CopyOf 2) (vec [1] 2) = Undefined
   \<and> Insert T_int (end_pos (vec [1::int] 2)) (CopyOf 2) (vec [1] 2) = Undefined"
proof -
  have a: "valid (vec [1::int] 2) \<and> 0 < Size (vec [1::int] 2)
      \<and> Size (vec [1::int] 2) < Capacity (vec [1::int] 2)
      \<and> construct T_int (CopyOf 2) \<noteq> None \<and> transferable T_int (vec [1] 2)"
    by (simp add: valid_def transferable_def elements_def Size_def Capacity_def eval_defs)
  from a have h: "valid (vec [1::int] 2)" "0 < Size (vec [1::int] 2)"
    "Size (vec [1::int] 2) < Capacity (vec [1::int] 2)"
    "construct T_int (CopyOf 2) \<noteq> None" "transferable T_int (vec [1] 2)"
    by simp_all
  from a Emplace_at_end_with_spare_capacity [OF h]
  show ?thesis by simp
qed

text \<open>
  The two steps around that call, taken by themselves: the last element has been moved
  from, and the assignment of the new element overwrites the slot the last element was
  moved to. So the former last element is lost even where the library does nothing for
  such a range, unless a moved-from object keeps its value.
\<close>

lemma Emplace_at_end_steps:
  assumes "construct_from_slot T mv (n - 1) n b = Ok b1" and "assign_value T True x n b1 = Ok b3"
    and "0 < n" and "b ! (n - 1) = Some y"
  shows "b3 ! (n - 1) = Some (residue T mv y) \<and> b3 ! n = Some x"
  using assms
  by (auto simp: construct_from_slot_def assign_value_def nth_list_update
      split: if_splits option.splits)

text \<open>
  Everywhere else \<^verbatim>\<open>Emplace\<close> and \<^verbatim>\<open>Insert\<close> do what C2 says: for a position from
  \<^verbatim>\<open>begin()\<close> to \<^verbatim>\<open>end()\<close> of a well-formed vector, other than \<^verbatim>\<open>end()\<close> of a
  non-empty vector with spare capacity, when no operation of the element type throws and
  the allocation of a growing insert yields a block of at most \<^verbatim>\<open>PTRDIFF_MAX\<close> slots
  with room for the requested number of objects, the size grows by one, the new element is at
  \<open>pos\<close>, the elements before \<open>pos\<close> are unchanged, the elements from \<open>pos\<close> on are one
  slot further back, and the result is \<open>pos\<close>.
\<close>

lemma shift_right:
  assumes "n \<le> lst" and "lst < length b" and "\<forall>i. lst - n \<le> i \<and> i \<le> lst \<longrightarrow> b ! i \<noteq> None"
    and "\<forall>i. lst - n \<le> i \<and> i < lst \<longrightarrow> (\<exists>x. b ! i = Some x \<and> \<not> assign_throws T mv x)"
  shows "\<exists>b'. assign_backward T mv lst (Suc lst) n b = Ok b' \<and> length b' = length b
     \<and> (\<forall>j<length b. b' ! j =
          (if lst - n < j \<and> j \<le> lst then b ! (j - 1)
           else if j = lst - n \<and> 0 < n then map_option (residue T mv) (b ! j) else b ! j))"
  using assms
proof (induction n arbitrary: lst b)
  case 0
  then show ?case by auto
next
  case (Suc n)
  from Suc.prems(1) have lp: "0 < lst" by simp
  then have sl: "Suc (lst - 1) = lst" by simp
  from Suc.prems(1,4) lp obtain x where x: "b ! (lst - 1) = Some x" and nt: "\<not> assign_throws T mv x"
    by (metis diff_le_mono2 diff_less Suc_le_eq le_add1 plus_1_eq_Suc zero_less_one)
  have "lst - Suc n \<le> lst \<and> lst \<le> lst" by simp
  with Suc.prems(3) have "b ! lst \<noteq> None" by blast
  then obtain y where y: "b ! lst = Some y" by auto
  let ?b1 = "b[lst - 1 := Some (residue T mv x), lst := Some x]"
  have st: "assign_slot T mv (lst - 1) lst b = Ok ?b1"
    using Suc.prems(2) lp x y nt by (simp add: assign_slot_def)
  have p1: "n \<le> lst - 1" using Suc.prems(1) by simp
  have p2: "lst - 1 < length ?b1" using Suc.prems(2) by simp
  have p3: "\<forall>i. lst - 1 - n \<le> i \<and> i \<le> lst - 1 \<longrightarrow> ?b1 ! i \<noteq> None"
    using Suc.prems(2,3) lp by (auto simp: nth_list_update)
  have p4: "\<forall>i. lst - 1 - n \<le> i \<and> i < lst - 1 \<longrightarrow> (\<exists>x. ?b1 ! i = Some x \<and> \<not> assign_throws T mv x)"
    using Suc.prems(2,4) by (auto simp: nth_list_update)
  from Suc.IH [OF p1 p2 p3 p4] sl
  obtain b' where r: "assign_backward T mv (lst - 1) lst n ?b1 = Ok b'"
    and l: "length b' = length b"
    and c: "\<forall>j<length b. b' ! j =
          (if lst - 1 - n < j \<and> j \<le> lst - 1 then ?b1 ! (j - 1)
           else if j = lst - 1 - n \<and> 0 < n then map_option (residue T mv) (?b1 ! j) else ?b1 ! j)"
    by auto
  have run: "assign_backward T mv lst (Suc lst) (Suc n) b = Ok b'"
    using st r lp by simp
  have c': "\<forall>j<length b. b' ! j =
          (if lst - Suc n < j \<and> j \<le> lst then b ! (j - 1)
           else if j = lst - Suc n \<and> 0 < Suc n then map_option (residue T mv) (b ! j) else b ! j)"
  proof (intro allI impI)
    fix j assume j: "j < length b"
    let ?cA = "lst - 1 - n < j \<and> j \<le> lst - 1"
    let ?cB = "j = lst - 1 - n \<and> 0 < n"
    let ?tA = "lst - Suc n < j \<and> j \<le> lst"
    let ?tB = "j = lst - Suc n \<and> 0 < Suc n"
    note cj = c [rule_format, OF j]
    have keep: "\<And>k. k \<noteq> lst - 1 \<Longrightarrow> k \<noteq> lst \<Longrightarrow> ?b1 ! k = b ! k"
      by simp
    consider "j < lst - Suc n" | "j = lst - Suc n" "n = 0" | "j = lst - Suc n" "0 < n"
      | "lst - Suc n < j" "j \<le> lst - 1" | "j = lst" | "lst < j"
      using lp by arith
    then show "b' ! j = (if ?tA then b ! (j - 1)
           else if ?tB then map_option (residue T mv) (b ! j) else b ! j)"
    proof cases
      case 1
      then have cA: "\<not> ?cA" and cB: "\<not> ?cB" and tA: "\<not> ?tA" and tB: "\<not> ?tB"
        and k: "j \<noteq> lst - 1" "j \<noteq> lst"
        using Suc.prems(1) lp by auto
      have "b' ! j = ?b1 ! j" using cj by (simp only: if_not_P [OF cA] if_not_P [OF cB])
      also have "\<dots> = b ! j" using k by (rule keep)
      finally show ?thesis by (simp only: if_not_P [OF tA] if_not_P [OF tB])
    next
      case 2
      then have cA: "\<not> ?cA" and cB: "\<not> ?cB" and tA: "\<not> ?tA" and tB: "?tB"
        and k: "j = lst - 1"
        using Suc.prems(1) lp by auto
      have "b' ! j = ?b1 ! j" using cj by (simp only: if_not_P [OF cA] if_not_P [OF cB])
      also have "\<dots> = Some (residue T mv x)" using k lp Suc.prems(2) by simp
      also have "\<dots> = map_option (residue T mv) (b ! j)" using k x by simp
      finally show ?thesis by (simp only: if_not_P [OF tA] if_P [OF tB])
    next
      case 3
      then have cA: "\<not> ?cA" and cB: "?cB" and tA: "\<not> ?tA" and tB: "?tB"
        and k: "j \<noteq> lst - 1" "j \<noteq> lst"
        using Suc.prems(1) lp by auto
      have "b' ! j = map_option (residue T mv) (?b1 ! j)"
        using cj by (simp only: if_not_P [OF cA] if_P [OF cB])
      also have "?b1 ! j = b ! j" using k by (rule keep)
      finally show ?thesis by (simp only: if_not_P [OF tA] if_P [OF tB])
    next
      case 4
      then have cA: "?cA" and tA: "?tA"
        and k: "j - 1 \<noteq> lst - 1" "j - 1 \<noteq> lst"
        using Suc.prems(1) lp by auto
      have "b' ! j = ?b1 ! (j - 1)" using cj by (simp only: if_P [OF cA])
      also have "\<dots> = b ! (j - 1)" using k by (rule keep)
      finally show ?thesis by (simp only: if_P [OF tA])
    next
      case 5
      then have cA: "\<not> ?cA" and cB: "\<not> ?cB" and tA: "?tA"
        using Suc.prems(1) lp by auto
      have "b' ! j = ?b1 ! j" using cj by (simp only: if_not_P [OF cA] if_not_P [OF cB])
      also have "\<dots> = Some x" using 5 Suc.prems(2) by simp
      also have "\<dots> = b ! (j - 1)" using 5 x by simp
      finally show ?thesis by (simp only: if_P [OF tA])
    next
      case 6
      then have cA: "\<not> ?cA" and cB: "\<not> ?cB" and tA: "\<not> ?tA" and tB: "\<not> ?tB"
        and k: "j \<noteq> lst - 1" "j \<noteq> lst"
        using Suc.prems(1) lp by auto
      have "b' ! j = ?b1 ! j" using cj by (simp only: if_not_P [OF cA] if_not_P [OF cB])
      also have "\<dots> = b ! j" using k by (rule keep)
      finally show ?thesis by (simp only: if_not_P [OF tA] if_not_P [OF tB])
    qed
  qed
  from run l c' show ?case by blast
qed

lemma nothrow_assign: "nothrow T \<Longrightarrow> \<not> assign_throws T mv x"
  by (simp add: nothrow_def assign_throws_def)

lemma nothrow_ctor: "nothrow T \<Longrightarrow> \<not> ctor_throws T mv x"
  by (simp add: nothrow_def ctor_throws_def)

lemma Emplace_in_place_ok:
  assumes v: "valid v" and n0: "0 < size_m v" and sp: "size_m v < capacity_m (data_m v)"
    and p: "pos < size_m v" and c: "construct T a = Some x" and nt: "nothrow T"
  shows "\<exists>v'. Emplace T pos a v = Done v' pos \<and> size_m v' = Suc (size_m v)
           \<and> capacity_m (data_m v') = capacity_m (data_m v)
           \<and> elements v' = take pos (elements v) @ [Some x] @ drop pos (elements v) \<and> valid v'"
proof -
  let ?b = "buffer_m (data_m v)"
  let ?n = "size_m v"
  let ?mv = "use_move T"
  from v have len: "length ?b = capacity_m (data_m v)" and live: "\<forall>i<?n. ?b ! i \<noteq> None"
    and cap: "capacity_m (data_m v) \<le> PTRDIFF_MAX"
    by (simp_all add: valid_iff)
  note w = wrap_Suc_valid [OF v]
  from n0 have "?n - 1 < ?n" by simp
  with live have "?b ! (?n - 1) \<noteq> None" by blast
  then obtain y where y: "?b ! (?n - 1) = Some y" by auto
  let ?b1 = "?b[?n - 1 := Some (residue T ?mv y), ?n := Some y]"
  have s1: "construct_from_slot T ?mv (?n - 1) ?n ?b = Ok ?b1"
    using n0 sp len y nothrow_ctor [OF nt] by (simp add: construct_from_slot_def)
  have sucn: "Suc (?n - 1) = ?n" using n0 by simp
  have q1: "?n - 1 - pos \<le> ?n - 1" by simp
  have q2: "?n - 1 < length ?b1" using sp len by simp
  have lo: "?n - 1 - (?n - 1 - pos) = pos" using p by arith
  have q3: "\<forall>i. ?n - 1 - (?n - 1 - pos) \<le> i \<and> i \<le> ?n - 1 \<longrightarrow> ?b1 ! i \<noteq> None"
  proof (intro allI impI)
    fix i assume i: "?n - 1 - (?n - 1 - pos) \<le> i \<and> i \<le> ?n - 1"
    with n0 have "i < ?n" by arith
    with live have "?b ! i \<noteq> None" by blast
    with sp len \<open>i < ?n\<close> show "?b1 ! i \<noteq> None"
      by (cases "i = ?n - 1") (simp_all add: nth_list_update)
  qed
  have q4: "\<forall>i. ?n - 1 - (?n - 1 - pos) \<le> i \<and> i < ?n - 1 \<longrightarrow>
              (\<exists>x. ?b1 ! i = Some x \<and> \<not> assign_throws T ?mv x)"
  proof (intro allI impI)
    fix i assume i: "?n - 1 - (?n - 1 - pos) \<le> i \<and> i < ?n - 1"
    then have "i < ?n" "i \<noteq> ?n - 1" "i \<noteq> ?n" by arith+
    with live obtain z where "?b ! i = Some z" by blast
    with \<open>i \<noteq> ?n - 1\<close> \<open>i \<noteq> ?n\<close> have "?b1 ! i = Some z" by simp
    with nothrow_assign [OF nt] show "\<exists>x. ?b1 ! i = Some x \<and> \<not> assign_throws T ?mv x" by simp
  qed
  from shift_right [OF q1 q2 q3 q4] sucn lo
  obtain b2 where s2: "assign_backward T ?mv (?n - 1) ?n (?n - 1 - pos) ?b1 = Ok b2"
    and l2: "length b2 = length ?b"
    and c2: "\<forall>j<length ?b. b2 ! j =
          (if pos < j \<and> j \<le> ?n - 1 then ?b1 ! (j - 1)
           else if j = pos \<and> 0 < ?n - 1 - pos then map_option (residue T ?mv) (?b1 ! j) else ?b1 ! j)"
    by auto
  have pl: "pos < length ?b" using p sp len by simp
  have "b2 ! pos \<noteq> None"
  proof -
    from p have "?n - 1 - (?n - 1 - pos) \<le> pos \<and> pos \<le> ?n - 1" by arith
    with q3 have "?b1 ! pos \<noteq> None" by blast
    with c2 [rule_format, OF pl] show ?thesis by (auto split: if_splits)
  qed
  then obtain z where z: "b2 ! pos = Some z" by auto
  let ?b3 = "b2[pos := Some x]"
  have s3: "assign_value T True x pos b2 = Ok ?b3"
    using pl l2 z nothrow_assign [OF nt] by (simp add: assign_value_def)
  let ?v' = "(set_buffer v ?b3)\<lparr>size_m := Suc ?n\<rparr>"
  have ple: "pos \<le> ?n - 1" using p by arith
  have pc: "pos < capacity_m (data_m v)" using p sp by simp
  have run: "Emplace T pos a v = Done ?v' pos"
    by (simp only: Emplace_in_place [OF sp n0 c] s1 s2 s3 ple pc w step.case if_True)
  have before: "\<forall>i<pos. ?b3 ! i = ?b ! i"
  proof (intro allI impI)
    fix i assume i: "i < pos"
    with p sp len have il: "i < length ?b" by simp
    from i p have k: "i \<noteq> ?n - 1" "i \<noteq> ?n" "i \<noteq> pos" "\<not> (pos < i \<and> i \<le> ?n - 1)"
      "\<not> (i = pos \<and> 0 < ?n - 1 - pos)" by arith+
    from c2 [rule_format, OF il] have "b2 ! i = ?b1 ! i"
      by (simp only: if_not_P [OF k(4)] if_not_P [OF k(5)])
    with k show "?b3 ! i = ?b ! i" by simp
  qed
  have at: "?b3 ! pos = Some x" using pl l2 by simp
  have after: "\<forall>i. pos < i \<and> i \<le> ?n \<longrightarrow> ?b3 ! i = ?b ! (i - 1)"
  proof (intro allI impI)
    fix i assume i: "pos < i \<and> i \<le> ?n"
    with sp len have il: "i < length ?b" by simp
    show "?b3 ! i = ?b ! (i - 1)"
    proof (cases "i = ?n")
      case True
      with i n0 have k: "\<not> (pos < i \<and> i \<le> ?n - 1)" "\<not> (i = pos \<and> 0 < ?n - 1 - pos)" "i \<noteq> pos"
        by arith+
      from c2 [rule_format, OF il] have "b2 ! i = ?b1 ! i"
        by (simp only: if_not_P [OF k(1)] if_not_P [OF k(2)])
      with True k sp len y show ?thesis by simp
    next
      case False
      with i have k: "pos < i \<and> i \<le> ?n - 1" "i \<noteq> pos" "i - 1 \<noteq> ?n - 1" "i - 1 \<noteq> ?n"
        by arith+
      from c2 [rule_format, OF il] have "b2 ! i = ?b1 ! (i - 1)"
        by (simp only: if_P [OF k(1)])
      with k show ?thesis by simp
    qed
  qed
  have livenew: "\<forall>i<Suc ?n. ?b3 ! i \<noteq> None"
  proof (intro allI impI)
    fix i assume i: "i < Suc ?n"
    consider "i < pos" | "i = pos" | "pos < i" by arith
    then show "?b3 ! i \<noteq> None"
    proof cases
      case 1 with before live p show ?thesis by simp
    next
      case 2 with at show ?thesis by simp
    next
      case 3
      with i after have "?b3 ! i = ?b ! (i - 1)" by simp
      moreover from 3 i have "i - 1 < ?n" by arith
      ultimately show ?thesis using live by simp
    qed
  qed
  have val: "valid ?v'"
    using v sp l2 livenew by (intro valid_resized) simp_all
  have el: "elements ?v' = take pos (elements v) @ [Some x] @ drop pos (elements v)"
    using p sp len l2 before at after
    by (intro elements_insert) (simp_all add: set_buffer_def)
  from run val el show ?thesis
    by (intro exI [of _ ?v']) (simp add: set_buffer_def)
qed

lemma Emplace_first_ok:
  assumes v: "valid v" and n0: "size_m v = 0" and sp: "0 < capacity_m (data_m v)"
    and c: "construct T a = Some x"
  shows "\<exists>v'. Emplace T 0 a v = Done v' 0 \<and> size_m v' = Suc (size_m v)
           \<and> capacity_m (data_m v') = capacity_m (data_m v)
           \<and> elements v' = take 0 (elements v) @ [Some x] @ drop 0 (elements v) \<and> valid v'"
proof -
  let ?b = "buffer_m (data_m v)"
  from v have len: "length ?b = capacity_m (data_m v)" by (simp add: valid_iff)
  note w = wrap_Suc_valid [OF v]
  let ?v' = "(set_buffer v (?b[0 := Some x]))\<lparr>size_m := Suc 0\<rparr>"
  have run: "Emplace T 0 a v = Done ?v' 0"
    using n0 sp c len w
    by (simp add: Emplace_def construct_at_def end_pos_def RawMemory_index_def)
  have val: "valid ?v'"
    using v sp len by (intro valid_resized) simp_all
  have el: "elements ?v' = [Some x]"
    using sp len by (cases ?b) (simp_all add: elements_def set_buffer_def)
  from run val el n0 show ?thesis
    by (intro exI [of _ ?v']) (simp add: set_buffer_def elements_def)
qed

lemma Emplace_spec:
  assumes "valid v" and "pos \<le> Size v" and "nothrow T"
    and "Size v < Capacity v
         \<or> Allocate T (max 1 (2 * Capacity v)) = Some (replicate (max 1 (2 * Capacity v)) None)
           \<and> max 1 (2 * Capacity v) \<le> PTRDIFF_MAX"
    and "\<not> (0 < Size v \<and> Size v < Capacity v \<and> pos = Size v)"
  shows "\<exists>v'. Emplace T pos a v = Done v' pos \<and> Insert T pos a v = Done v' pos
     \<and> Size v' = Size v + 1
     \<and> elements v' = take pos (elements v) @ [Some (arg_value a)] @ drop pos (elements v)
     \<and> subscript v' pos = Some (arg_value a)
     \<and> (\<forall>i<pos. subscript v' i = subscript v i)
     \<and> (\<forall>i. pos \<le> i \<and> i < Size v \<longrightarrow> subscript v' (i + 1) = subscript v i)
     \<and> valid v'"
proof -
  let ?x = "arg_value a"
  let ?n = "size_m v"
  from assms(3) have c: "construct T a = Some ?x" by (rule construct_nothrow)
  from assms(1) have le: "?n \<le> capacity_m (data_m v)" by (simp add: valid_iff)
  from assms(2) have p: "pos \<le> ?n" by (simp add: Size_def)
  have "\<exists>v'. Emplace T pos a v = Done v' pos \<and> size_m v' = Suc ?n
           \<and> elements v' = take pos (elements v) @ [Some ?x] @ drop pos (elements v) \<and> valid v'"
  proof (cases "?n < capacity_m (data_m v)")
    case True
    show ?thesis
    proof (cases "0 < ?n")
      case True2: True
      with True assms(5) p have "pos < ?n" by (auto simp: Size_def Capacity_def)
      from Emplace_in_place_ok [OF assms(1) True2 True this c assms(3)] show ?thesis by auto
    next
      case False
      with p have z: "?n = 0" "pos = 0" by simp_all
      with True have "0 < capacity_m (data_m v)" by simp
      from Emplace_first_ok [OF assms(1) z(1) this c] z show ?thesis by auto
    qed
  next
    case False
    with le have full: "?n = capacity_m (data_m v)" by simp
    from False assms(4)
    have al: "Allocate T (max 1 (2 * capacity_m (data_m v)))
                = Some (replicate (max 1 (2 * capacity_m (data_m v))) None)"
      and gm: "max 1 (2 * capacity_m (data_m v)) \<le> PTRDIFF_MAX"
      by (simp_all add: Size_def Capacity_def del: max_def)
    from Emplace_grow_ok [OF assms(1) full p c al nothrow_transferable [OF assms(3)]] gm
    show ?thesis by (auto simp del: max_def)
  qed
  then obtain v' where r: "Emplace T pos a v = Done v' pos" and s: "size_m v' = Suc ?n"
    and e: "elements v' = take pos (elements v) @ [Some ?x] @ drop pos (elements v)"
    and v': "valid v'"
    by auto
  have lv: "length (elements v) = ?n" using assms(1) by (rule length_elements)
  have sub: "\<And>i. i < Suc ?n \<Longrightarrow> subscript v' i = elements v' ! i"
    using v' s by (simp add: subscript_elements)
  have subv: "\<And>i. i < ?n \<Longrightarrow> subscript v i = elements v ! i"
    using assms(1) by (simp add: subscript_elements)
  have a1: "subscript v' pos = Some ?x"
    using sub [of pos] p e lv by (simp add: nth_append)
  have a2: "\<forall>i<pos. subscript v' i = subscript v i"
    using sub subv p e lv by (simp add: nth_append)
  have a3: "\<forall>i. pos \<le> i \<and> i < Size v \<longrightarrow> subscript v' (i + 1) = subscript v i"
  proof (intro allI impI)
    fix i assume i: "pos \<le> i \<and> i < Size v"
    then have i': "i < ?n" "Suc i < Suc ?n" by (simp_all add: Size_def)
    from i have d: "Suc i - pos = Suc (i - pos)" by arith
    from i have "\<not> Suc i < pos" by arith
    with sub [OF i'(2)] subv [OF i'(1)] i p e lv d show "subscript v' (i + 1) = subscript v i"
      by (simp add: nth_append min_def)
  qed
  from r s e v' a1 a2 a3 show ?thesis
    by (intro exI [of _ v']) (simp add: Insert_def Size_def)
qed

subsection \<open>A throwing element constructor during a transfer\<close>

text \<open>
  C3, at an input where the code departs from it. The element type copies on transfer,
  and copying the value 1 throws. The vector holds 1 in a block of one slot. \<^verbatim>\<open>PushBack\<close>,
  \<^verbatim>\<open>EmplaceBack\<close> and \<^verbatim>\<open>Emplace\<close> of the value 2 construct 2 in the new block, the
  copy of 1 throws, and the exception leaves the vector as it was, but the new block is
  released while the object 2 is still alive in it: its destructor never runs.
\<close>

theorem growth_leaks_new_element:
  "PushBack T_throwing (CopyOf 2) (vec [1] 1) = Raised ElementThrow (vec [1] 1) [2]
   \<and> EmplaceBack T_throwing (CopyOf 2) (vec [1] 1) = Raised ElementThrow (vec [1] 1) [2]
   \<and> Emplace T_throwing 0 (CopyOf 2) (vec [1] 1) = Raised ElementThrow (vec [1] 1) [2]
   \<and> Emplace T_throwing 1 (CopyOf 2) (vec [1] 1) = Raised ElementThrow (vec [1] 1) [2]"
  by (simp add: PushBack_def EmplaceBack_def append_one_def Emplace_def eval_defs)

text \<open>
  The other half of C3 holds where the transfer copies: an exception out of \<^verbatim>\<open>Reserve\<close>
  or out of a growing \<^verbatim>\<open>PushBack\<close>, \<^verbatim>\<open>EmplaceBack\<close> or \<^verbatim>\<open>Emplace\<close> leaves the vector
  exactly as it was before the call.
\<close>

lemma transfer_copy_src:
  "uninitialized_transfer T False first d_first k n src dst = Throw (src', dst')
   \<or> uninitialized_transfer T False first d_first k n src dst = Ok (src', dst') \<Longrightarrow> src' = src"
proof (induction n arbitrary: k src dst)
  case 0
  then show ?case by simp
next
  case (Suc n)
  from Suc.prems have b: "first + k < length src" "d_first + k < length dst"
    by (auto split: if_splits)
  with Suc.prems obtain x where x: "src ! (first + k) = Some x"
    by (auto split: option.splits)
  then have same: "src[first + k := Some (residue T False x)] = src"
    by (simp add: residue_def list_update_same_conv b)
  show ?case
  proof (cases "ctor_throws T False x")
    case True
    with Suc.prems b x show ?thesis by (auto split: option.splits)
  next
    case False
    with Suc.prems b x same
    have "uninitialized_transfer T False first d_first (Suc k) n src (dst[d_first + k := Some x])
            = Throw (src', dst')
          \<or> uninitialized_transfer T False first d_first (Suc k) n src (dst[d_first + k := Some x])
            = Ok (src', dst')"
      by simp
    then show ?thesis by (rule Suc.IH)
  qed
qed

lemma set_buffer_same: "set_buffer v (buffer_m (data_m v)) = v"
  by (simp add: set_buffer_def)

lemma copy_transfer_keeps_vector:
  assumes "\<not> use_move T"
  shows "Reserve T n v = Raised e v' l \<longrightarrow> v' = v"
    and "PushBack T a v = Raised e v' l \<longrightarrow> v' = v"
    and "EmplaceBack T a v = Raised e v' l \<longrightarrow> v' = v"
    and "\<not> size_m v < capacity_m (data_m v) \<longrightarrow> Emplace T pos a v = Raised e v' l \<longrightarrow> v' = v"
proof -
  have tt: "\<And>f d m src dst ob nb.
      uninitialized_transfer T (use_move T) f d 0 m src dst = Throw (ob, nb) \<Longrightarrow> ob = src"
    and to: "\<And>f d m src dst ob nb.
      uninitialized_transfer T (use_move T) f d 0 m src dst = Ok (ob, nb) \<Longrightarrow> ob = src"
    using assms transfer_copy_src by metis+
  show "\<not> size_m v < capacity_m (data_m v) \<longrightarrow> Emplace T pos a v = Raised e v' l \<longrightarrow> v' = v"
    by (auto simp: Emplace_def transfer_dispatch_range' set_buffer_same RawMemory_Swap_def
        split: if_splits option.splits step.splits prod.splits dest!: tt to)
  have tr: "\<And>m src dst ob nb.
      uninitialized_transfer T (use_move T) 0 0 0 m src dst = Throw (ob, nb) \<Longrightarrow> ob = src"
    using assms transfer_copy_src by metis
  show "Reserve T n v = Raised e v' l \<longrightarrow> v' = v"
    by (auto simp: Reserve_def transfer_dispatch_n set_buffer_same RawMemory_Swap_def
        split: if_splits option.splits step.splits prod.splits dest!: tr)
  have ap: "append_one T a v = Raised e v' l \<longrightarrow> v' = v"
    by (auto simp: append_one_def transfer_dispatch_n set_buffer_same RawMemory_Swap_def
        split: if_splits option.splits step.splits prod.splits dest!: tr)
  then show "PushBack T a v = Raised e v' l \<longrightarrow> v' = v"
    by (simp add: PushBack_def)
  from ap show "EmplaceBack T a v = Raised e v' l \<longrightarrow> v' = v"
    by (auto simp: EmplaceBack_def split: outcome.splits option.splits)
qed

end
